theory Spec2Isabelle
  imports Complex_Main "HOL-Library.Log_Nat" "HOL-Library.AList"
begin

section \<open>Python values used by the scanners\<close>

text \<open>
  The two scripts \<^verbatim>\<open>cws_v2.py\<close> (class \<^verbatim>\<open>AsyncWalletScanner\<close>) and \<^verbatim>\<open>cws_win.py\<close>
  (class \<^verbatim>\<open>WalletScanner\<close>) are embedded function by function. Everything the scripts
  obtain from outside (HTTP answers, random keys, the HD wallet library, the file system)
  is an explicit argument; everything they do to the outside is appended to a trace.
\<close>

subsection \<open>Exceptions\<close>

text \<open>
  The exceptions that the modelled statements can raise. \<^verbatim>\<open>CancelledError\<close> and
  \<^verbatim>\<open>KeyboardInterrupt\<close> derive from \<^verbatim>\<open>BaseException\<close> only, so a handler
  \<^verbatim>\<open>except Exception\<close> lets them through; all others derive from \<^verbatim>\<open>Exception\<close>.
\<close>

datatype exn =
    KeyError | TypeError | ValueError | AttributeError | OverflowError
  | ZeroDivisionError | NameError | OSError
  | ClientError | TimeoutError | ContentTypeError | JSONDecodeError
  | CancelledError | KeyboardInterrupt

fun is_Exception :: "exn \<Rightarrow> bool" where
  "is_Exception CancelledError = False"
| "is_Exception KeyboardInterrupt = False"
| "is_Exception _ = True"

definition bind_exn :: "exn + 'a \<Rightarrow> ('a \<Rightarrow> exn + 'b) \<Rightarrow> exn + 'b" where
  "bind_exn m f = (case m of Inl e \<Rightarrow> Inl e | Inr x \<Rightarrow> f x)"

subsection \<open>Floats\<close>

text \<open>
  A Python \<^verbatim>\<open>float\<close> is an IEEE 754 binary64 value: a finite value (kept as the rational
  it denotes), an infinity or a NaN. The sign of zero is not kept: no modelled statement
  observes it. Arithmetic rounds the exact result to the nearest binary64 value, ties to
  the even significand (\<open>fround\<close>): the significand has 53 bits, the least exponent of a
  unit in the last place is \<open>-1074\<close>, and a rounded magnitude of \<open>2 ^ 1024\<close> or more is an
  overflow.
\<close>

datatype pyfloat = Fin rat | PosInf | NegInf | NaN

definition rne :: "rat \<Rightarrow> int" where
  "rne q = (let f = \<lfloor>q\<rfloor>; r = q - of_int f in
     if r < 1 / 2 then f else if 1 / 2 < r then f + 1 else if even f then f else f + 1)"

definition ilog2 :: "rat \<Rightarrow> int" where
  "ilog2 x = (let (a, b) = quotient_of x; k = bitlen a - bitlen b in
     if 2 powi k \<le> x then k else k - 1)"

definition round_pos :: "rat \<Rightarrow> rat" where
  "round_pos x = (let e = max (ilog2 x - 52) (- 1074) in of_int (rne (x / 2 powi e)) * 2 powi e)"

definition fround :: "rat \<Rightarrow> pyfloat" where
  "fround x = (if x = 0 then Fin 0
     else if 0 < x then (let y = round_pos x in if 2 ^ 1024 \<le> y then PosInf else Fin y)
     else (let y = round_pos (- x) in if 2 ^ 1024 \<le> y then NegInf else Fin (- y)))"

text \<open>Comparison \<^verbatim>\<open>a < b\<close> of two floats; every comparison with a NaN is false.\<close>

fun fless :: "pyfloat \<Rightarrow> pyfloat \<Rightarrow> bool" where
  "fless NaN _ = False"
| "fless _ NaN = False"
| "fless (Fin x) (Fin y) = (x < y)"
| "fless (Fin x) PosInf = True"
| "fless NegInf (Fin y) = True"
| "fless NegInf PosInf = True"
| "fless _ _ = False"

fun fsign :: "pyfloat \<Rightarrow> int option" where
  "fsign (Fin x) = Some (if 0 < x then 1 else if x < 0 then - 1 else 0)"
| "fsign PosInf = Some 1"
| "fsign NegInf = Some (- 1)"
| "fsign NaN = None"

text \<open>Float multiplication \<^verbatim>\<open>a * b\<close>.\<close>

fun fmul :: "pyfloat \<Rightarrow> pyfloat \<Rightarrow> pyfloat" where
  "fmul (Fin x) (Fin y) = fround (x * y)"
| "fmul a b = (case (fsign a, fsign b) of
      (Some s, Some t) \<Rightarrow> if 0 < s * t then PosInf else if s * t < 0 then NegInf else NaN
    | _ \<Rightarrow> NaN)"

text \<open>
  True division \<^verbatim>\<open>a / b\<close> of two integers: the correctly rounded quotient;
  \<^verbatim>\<open>OverflowError\<close> when it is too large for a float.
\<close>

definition int_truediv :: "int \<Rightarrow> int \<Rightarrow> exn + pyfloat" where
  "int_truediv a b =
     (if b = 0 then Inl ZeroDivisionError
      else case fround (of_int a / of_int b) of
          Fin y \<Rightarrow> Inr (Fin y)
        | _ \<Rightarrow> Inl OverflowError)"

text \<open>
  True division \<^verbatim>\<open>f / b\<close> of a float by an integer: the integer is converted to a float
  (\<^verbatim>\<open>OverflowError\<close> when it is too large), then the floats are divided.
\<close>

definition float_truediv_int :: "pyfloat \<Rightarrow> int \<Rightarrow> exn + pyfloat" where
  "float_truediv_int f b =
     (case fround (of_int b) of
        Fin y \<Rightarrow>
          if y = 0 then Inl ZeroDivisionError
          else Inr (case f of
              Fin x \<Rightarrow> fround (x / y)
            | PosInf \<Rightarrow> if 0 < y then PosInf else NegInf
            | NegInf \<Rightarrow> if 0 < y then NegInf else PosInf
            | NaN \<Rightarrow> NaN)
      | _ \<Rightarrow> Inl OverflowError)"

subsection \<open>Decoded JSON\<close>

text \<open>
  What \<^verbatim>\<open>await response.json()\<close> returns: the Python object decoded from the body. A
  dict is kept as the list of its items, one per key, and read with \<open>map_of\<close>.
\<close>

datatype json =
    JNull | JBool bool | JInt int | JFloat pyfloat | JStr string
  | JArr "json list" | JObj "(string \<times> json) list"

text \<open>Subscription \<^verbatim>\<open>data[key]\<close> with a string key.\<close>

fun py_getitem :: "json \<Rightarrow> string \<Rightarrow> exn + json" where
  "py_getitem (JObj kvs) k = (case map_of kvs k of None \<Rightarrow> Inl KeyError | Some v \<Rightarrow> Inr v)"
| "py_getitem _ k = Inl TypeError"

text \<open>The method call \<^verbatim>\<open>data.get(key, default)\<close>: only a dict has the method.\<close>

fun py_get :: "json \<Rightarrow> string \<Rightarrow> json \<Rightarrow> exn + json" where
  "py_get (JObj kvs) k d = (case map_of kvs k of None \<Rightarrow> Inr d | Some v \<Rightarrow> Inr v)"
| "py_get _ k d = Inl AttributeError"

text \<open>
  \<^verbatim>\<open>int(s)\<close> on a string. A character of a \<open>string\<close> stands for the code point of its
  number, so the strings of the model are the Python strings over the code points below
  256. Surrounding whitespace is dropped (of these code points \<^verbatim>\<open>int\<close> takes as whitespace
  tab, line feed, vertical tab, form feed, carriage return, space, U+0085 and U+00A0), then
  come an optional sign and decimal digits, where single underscores may separate digits.
  CPython 3.11 refuses a string of more than 4300 digits (the default of
  \<^verbatim>\<open>sys.int_max_str_digits\<close>) with the same \<^verbatim>\<open>ValueError\<close>.
\<close>

definition is_space :: "char \<Rightarrow> bool" where
  "is_space c = (let n = (of_char c :: nat) in (9 \<le> n \<and> n \<le> 13) \<or> n = 32 \<or> n = 133 \<or> n = 160)"

definition digit_val :: "char \<Rightarrow> int option" where
  "digit_val c = (let n = (of_char c :: nat) in
     if 48 \<le> n \<and> n \<le> 57 then Some (int n - 48) else None)"

fun digits_val :: "int \<Rightarrow> bool \<Rightarrow> string \<Rightarrow> int option" where
  "digits_val acc prev [] = (if prev then Some acc else None)"
| "digits_val acc prev (c # cs) =
     (if c = CHR ''_'' then (if prev \<and> cs \<noteq> [] then digits_val acc False cs else None)
      else case digit_val c of
          None \<Rightarrow> None
        | Some d \<Rightarrow> digits_val (10 * acc + d) True cs)"

definition int_of_str :: "string \<Rightarrow> int option" where
  "int_of_str s =
     (case rev (dropWhile is_space (rev (dropWhile is_space s))) of
        [] \<Rightarrow> None
      | c # cs \<Rightarrow>
          (let signed = (c = CHR ''-'' \<or> c = CHR ''+'');
               digits = (if signed then cs else c # cs);
               r = (if 4300 < length (filter (\<lambda>x. x \<noteq> CHR ''_'') digits) then None
                    else digits_val 0 False digits)
           in if c = CHR ''-'' then map_option uminus r else r))"

text \<open>The conversion \<^verbatim>\<open>int(v)\<close> of a decoded value.\<close>

fun py_int :: "json \<Rightarrow> exn + int" where
  "py_int (JInt n) = Inr n"
| "py_int (JBool b) = Inr (if b then 1 else 0)"
| "py_int (JFloat (Fin x)) = Inr (if 0 \<le> x then \<lfloor>x\<rfloor> else \<lceil>x\<rceil>)"
| "py_int (JFloat NaN) = Inl ValueError"
| "py_int (JFloat _) = Inl OverflowError"
| "py_int (JStr s) = (case int_of_str s of None \<Rightarrow> Inl ValueError | Some n \<Rightarrow> Inr n)"
| "py_int _ = Inl TypeError"

text \<open>True division \<^verbatim>\<open>v / b\<close> of a decoded value by an integer.\<close>

fun py_truediv :: "json \<Rightarrow> int \<Rightarrow> exn + pyfloat" where
  "py_truediv (JInt a) b = int_truediv a b"
| "py_truediv (JBool a) b = int_truediv (if a then 1 else 0) b"
| "py_truediv (JFloat f) b = float_truediv_int f b"
| "py_truediv _ b = Inl TypeError"

section \<open>The outside world\<close>

text \<open>
  One HTTP exchange, as the code sees it: \<^verbatim>\<open>session.get(url)\<close> either raises (a transport
  error, a timeout, a cancellation) or yields a response with a status; on that response
  \<^verbatim>\<open>await response.json()\<close> either raises or returns the decoded body.
\<close>

datatype body = BodyError exn | Body json

datatype http_outcome = GetRaises exn | Response int body

record WalletInfo =
  btc_address :: string
  eth_address :: string
  private_key :: string
  btc_balance :: pyfloat
  eth_balance :: pyfloat

text \<open>
  What a scanner does to the outside, in the order in which it does it. Time is not
  modelled: a sleep is an event, and the caller goes on after it.
\<close>

datatype event =
    Acquire | Release
  | Sleep pyfloat
  | HttpGet string
  | AppendFile WalletInfo

text \<open>
  The fields of \<^verbatim>\<open>AsyncWalletScanner\<close> that the modelled methods read or write, and the
  trace of its effects. \<^verbatim>\<open>WalletScanner\<close> of \<^verbatim>\<open>cws_win.py\<close> has the same fields and two
  more; \<open>request_delays\<close> is the dict \<^verbatim>\<open>{'btc': 0.5, 'eth': 0.3}\<close> in insertion order.
  The semaphore is created with a positive ceiling (10 and 15 in \<^verbatim>\<open>main\<close>); the sequential
  functions below suppose that a permit is free and record its use in the trace; how
  several lookups share the permits is the subject of the section on lookups that overlap.
\<close>

record AsyncWalletScanner =
  scan_count :: int
  found_count :: int
  trace :: "event list"

record WalletScanner = AsyncWalletScanner +
  max_concurrent :: int
  request_delays :: "(string \<times> pyfloat) list"

definition emit :: "event list \<Rightarrow> 'a AsyncWalletScanner_scheme \<Rightarrow> 'a AsyncWalletScanner_scheme" where
  "emit evs s = s\<lparr>trace := trace s @ evs\<rparr>"

definition init_v2 :: "AsyncWalletScanner" where
  "init_v2 = \<lparr>scan_count = 0, found_count = 0, trace = []\<rparr>"

definition init_win :: "int \<Rightarrow> WalletScanner" where
  "init_win max_concurrent_requests =
     \<lparr>scan_count = 0, found_count = 0, trace = [],
      max_concurrent = max_concurrent_requests,
      request_delays = [(''btc'', fround (5 / 10)), (''eth'', fround (3 / 10))]\<rparr>"

text \<open>
  One pass of the scan loop consumes: a private key (\<^verbatim>\<open>random\<close>, \<^verbatim>\<open>secrets\<close>), the two
  HTTP exchanges, and what appending to \<^verbatim>\<open>found_wallets.txt\<close> does (\<open>None\<close>: it succeeds).
\<close>

record iter_env =
  env_key :: string
  env_btc :: http_outcome
  env_eth :: http_outcome
  env_save :: "exn option"

text \<open>
  A \<^verbatim>\<open>try\<close> block either raises, returns a value from the function (\<open>Some\<close>) or falls
  through (\<open>None\<close>). The handler \<^verbatim>\<open>except Exception\<close> of the balance functions ends in
  falling through.
\<close>

fun except_Exception :: "exn + 'a option \<Rightarrow> exn + 'a option" where
  "except_Exception (Inl e) = (if is_Exception e then Inr None else Inl e)"
| "except_Exception (Inr r) = Inr r"

text \<open>The statements after the \<^verbatim>\<open>try\<close>: \<^verbatim>\<open>return 0.0\<close> when it fell through.\<close>

fun or_zero :: "exn + pyfloat option \<Rightarrow> exn + pyfloat" where
  "or_zero (Inl e) = Inl e"
| "or_zero (Inr (Some v)) = Inr v"
| "or_zero (Inr None) = Inr (Fin 0)"

definition btc_url :: "string \<Rightarrow> string" where
  "btc_url address = ''https://blockchain.info/balance?active='' @ address"

definition eth_url :: "string \<Rightarrow> string" where
  "eth_url address =
     ''https://api.etherscan.io/api?module=account&action=balance&address='' @ address
       @ ''&tag=latest''"

text \<open>An expression that returns its value from the function.\<close>

definition returning :: "exn + 'a \<Rightarrow> exn + 'a option" where
  "returning m = (case m of Inl e \<Rightarrow> Inl e | Inr v \<Rightarrow> Inr (Some v))"

section \<open>\<^verbatim>\<open>cws_v2.py\<close>\<close>

text \<open>The expression \<^verbatim>\<open>data[address]['final_balance'] / 100000000\<close>.\<close>

definition btc_parse_v2 :: "json \<Rightarrow> string \<Rightarrow> exn + pyfloat" where
  "btc_parse_v2 data address =
     bind_exn (py_getitem data address) (\<lambda>entry.
     bind_exn (py_getitem entry ''final_balance'') (\<lambda>v.
     py_truediv v 100000000))"

text \<open>The body of the \<^verbatim>\<open>try\<close> of \<^verbatim>\<open>get_btc_balance\<close>.\<close>

definition btc_try_v2 :: "http_outcome \<Rightarrow> string \<Rightarrow> exn + pyfloat option" where
  "btc_try_v2 net address =
     (case net of
        GetRaises e \<Rightarrow> Inl e
      | Response status b \<Rightarrow>
          if status = 200 then
            (case b of
               BodyError e \<Rightarrow> Inl e
             | Body data \<Rightarrow> returning (btc_parse_v2 data address))
          else Inr None)"

definition get_btc_balance_v2 ::
  "bool \<Rightarrow> http_outcome \<Rightarrow> string \<Rightarrow> 'a AsyncWalletScanner_scheme
    \<Rightarrow> (exn + pyfloat) \<times> 'a AsyncWalletScanner_scheme" where
  "get_btc_balance_v2 TESTMODE net address s =
     (if TESTMODE then (Inr (Fin 0), s)
      else (or_zero (except_Exception (btc_try_v2 net address)),
            emit [Acquire, HttpGet (btc_url address), Release] s))"

text \<open>
  The statement \<^verbatim>\<open>if data['status'] == '1': return int(data['result']) / 10**18\<close>.
\<close>

definition eth_parse_v2 :: "json \<Rightarrow> exn + pyfloat option" where
  "eth_parse_v2 data =
     bind_exn (py_getitem data ''status'') (\<lambda>st.
       if st = JStr ''1'' then
         returning
           (bind_exn (py_getitem data ''result'') (\<lambda>r.
            bind_exn (py_int r) (\<lambda>n.
            int_truediv n (10 ^ 18))))
       else Inr None)"

text \<open>The body of the \<^verbatim>\<open>try\<close> of \<^verbatim>\<open>get_eth_balance\<close>.\<close>

definition eth_try_v2 :: "http_outcome \<Rightarrow> exn + pyfloat option" where
  "eth_try_v2 net =
     (case net of
        GetRaises e \<Rightarrow> Inl e
      | Response status b \<Rightarrow>
          if status = 200 then
            (case b of
               BodyError e \<Rightarrow> Inl e
             | Body data \<Rightarrow> eth_parse_v2 data)
          else Inr None)"

definition get_eth_balance_v2 ::
  "bool \<Rightarrow> http_outcome \<Rightarrow> string \<Rightarrow> 'a AsyncWalletScanner_scheme
    \<Rightarrow> (exn + pyfloat) \<times> 'a AsyncWalletScanner_scheme" where
  "get_eth_balance_v2 TESTMODE net address s =
     (if TESTMODE then (Inr (Fin 0), s)
      else (or_zero (except_Exception (eth_try_v2 net)),
            emit [Acquire, HttpGet (eth_url address), Release] s))"

text \<open>
  \<^verbatim>\<open>asyncio.gather\<close> without \<^verbatim>\<open>return_exceptions\<close> raises what a task raised; otherwise
  both results are stored in the wallet. The two tasks touch disjoint state, so running
  one after the other gives the state that every interleaving gives.
\<close>

definition gather_into ::
  "WalletInfo \<Rightarrow> exn + pyfloat \<Rightarrow> exn + pyfloat \<Rightarrow> exn + WalletInfo" where
  "gather_into wallet r_btc r_eth =
     (case r_btc of
        Inl e \<Rightarrow> Inl e
      | Inr b \<Rightarrow>
          (case r_eth of
             Inl e \<Rightarrow> Inl e
           | Inr e \<Rightarrow> Inr (wallet\<lparr>btc_balance := b, eth_balance := e\<rparr>)))"

definition check_wallet_balances ::
  "bool \<Rightarrow> http_outcome \<Rightarrow> http_outcome \<Rightarrow> WalletInfo \<Rightarrow> 'a AsyncWalletScanner_scheme
    \<Rightarrow> (exn + WalletInfo) \<times> 'a AsyncWalletScanner_scheme" where
  "check_wallet_balances TESTMODE net_btc net_eth wallet s =
     (let (r_btc, s1) = get_btc_balance_v2 TESTMODE net_btc (btc_address wallet) s;
          (r_eth, s2) = get_eth_balance_v2 TESTMODE net_eth (eth_address wallet) s1
      in (gather_into wallet r_btc r_eth, s2))"

text \<open>
  \<^verbatim>\<open>generate_wallet_addresses\<close>: the HD wallet library is the parameter \<open>derive\<close>, from a
  private key to the two addresses or to the exception it raises. The balances of the new
  \<^verbatim>\<open>WalletInfo\<close> are the defaults of the dataclass.
\<close>

definition generate_wallet_addresses ::
  "(string \<Rightarrow> exn + string \<times> string) \<Rightarrow> string \<Rightarrow> exn + WalletInfo" where
  "generate_wallet_addresses derive key =
     (case derive key of
        Inl e \<Rightarrow> Inl e
      | Inr (btc, eth) \<Rightarrow>
          Inr \<lparr>btc_address = btc, eth_address = eth, private_key = key,
               btc_balance = Fin 0, eth_balance = Fin 0\<rparr>)"

text \<open>The test of the scan loop: \<^verbatim>\<open>wallet.btc_balance > 0 or wallet.eth_balance > 0\<close>.\<close>

definition has_balance :: "WalletInfo \<Rightarrow> bool" where
  "has_balance wallet = (fless (Fin 0) (btc_balance wallet) \<or> fless (Fin 0) (eth_balance wallet))"

definition save_found_wallet_v2 ::
  "bool \<Rightarrow> exn option \<Rightarrow> WalletInfo \<Rightarrow> 'a AsyncWalletScanner_scheme
    \<Rightarrow> exn option \<times> 'a AsyncWalletScanner_scheme" where
  "save_found_wallet_v2 TESTMODE fs wallet s =
     (if TESTMODE then (None, s)
      else case fs of
          None \<Rightarrow> (None, emit [AppendFile wallet] s)
        | Some e \<Rightarrow> (if is_Exception e then (None, s) else (Some e, s)))"

text \<open>
  One pass of the body of \<^verbatim>\<open>while True\<close> in \<^verbatim>\<open>run_scan\<close>. The result is the exception that
  ended the pass, if any, and the scanner as the pass left it. Printing is not modelled.
\<close>

definition scan_iteration_v2 ::
  "bool \<Rightarrow> (string \<Rightarrow> exn + string \<times> string) \<Rightarrow> iter_env \<Rightarrow> 'a AsyncWalletScanner_scheme
    \<Rightarrow> exn option \<times> 'a AsyncWalletScanner_scheme" where
  "scan_iteration_v2 TESTMODE derive env s =
     (case generate_wallet_addresses derive (env_key env) of
        Inl e \<Rightarrow> (Some e, s)
      | Inr wallet0 \<Rightarrow>
          (case check_wallet_balances TESTMODE (env_btc env) (env_eth env) wallet0 s of
             (Inl e, s1) \<Rightarrow> (Some e, s1)
           | (Inr wallet, s1) \<Rightarrow>
               (let s2 = s1\<lparr>scan_count := scan_count s1 + 1\<rparr>;
                    (r, s3) =
                      (if has_balance wallet
                       then save_found_wallet_v2 TESTMODE (env_save env) wallet
                              (s2\<lparr>found_count := found_count s2 + 1\<rparr>)
                       else (None, s2))
                in case r of
                     Some e \<Rightarrow> (Some e, s3)
                   | None \<Rightarrow>
                       (None, emit [Sleep (if \<not> TESTMODE then fround (3 / 10)
                                           else fround (1 / 10))] s3))))"

text \<open>
  \<^verbatim>\<open>run_scan\<close>: the loop has no exit of its own. It runs one pass per element of the list
  of inputs; when the list is used up the operator interrupts, and the handler
  \<^verbatim>\<open>except KeyboardInterrupt\<close> ends the method normally. Any other exception leaves it.
\<close>

fun run_scan_v2 ::
  "bool \<Rightarrow> (string \<Rightarrow> exn + string \<times> string) \<Rightarrow> iter_env list \<Rightarrow> 'a AsyncWalletScanner_scheme
    \<Rightarrow> exn option \<times> 'a AsyncWalletScanner_scheme" where
  "run_scan_v2 TESTMODE derive [] s = (None, s)"
| "run_scan_v2 TESTMODE derive (env # envs) s =
     (case scan_iteration_v2 TESTMODE derive env s of
        (None, s') \<Rightarrow> run_scan_v2 TESTMODE derive envs s'
      | (Some e, s') \<Rightarrow> (if e = KeyboardInterrupt then (None, s') else (Some e, s')))"

section \<open>\<^verbatim>\<open>cws_win.py\<close>\<close>

text \<open>The statement \<^verbatim>\<open>self.request_delays[k] *= 1.5\<close>.\<close>

definition scale_delay :: "string \<Rightarrow> (string \<times> pyfloat) list \<Rightarrow> exn + (string \<times> pyfloat) list" where
  "scale_delay k ds =
     (case map_of ds k of
        None \<Rightarrow> Inl KeyError
      | Some d \<Rightarrow> Inr (AList.update k (fmul d (fround (15 / 10))) ds))"

text \<open>
  The expression \<^verbatim>\<open>data.get(address, {}).get('final_balance', 0) / 100000000\<close>.
\<close>

definition btc_parse_win :: "json \<Rightarrow> string \<Rightarrow> exn + pyfloat" where
  "btc_parse_win data address =
     bind_exn (py_get data address (JObj [])) (\<lambda>entry.
     bind_exn (py_get entry ''final_balance'' (JInt 0)) (\<lambda>v.
     py_truediv v 100000000))"

text \<open>
  The statement
  \<^verbatim>\<open>if data.get('status') == '1': return int(data.get('result', 0)) / 10**18\<close>.
\<close>

definition eth_parse_win :: "json \<Rightarrow> exn + pyfloat option" where
  "eth_parse_win data =
     bind_exn (py_get data ''status'' JNull) (\<lambda>st.
       if st = JStr ''1'' then
         returning
           (bind_exn (py_get data ''result'' (JInt 0)) (\<lambda>r.
            bind_exn (py_int r) (\<lambda>n.
            int_truediv n (10 ^ 18))))
       else Inr None)"

text \<open>
  The body of the \<^verbatim>\<open>try\<close> of \<^verbatim>\<open>get_btc_balance\<close>. What it did to the scanner stays done
  when it raises.
\<close>

definition btc_try_win ::
  "http_outcome \<Rightarrow> string \<Rightarrow> 'a WalletScanner_scheme
    \<Rightarrow> (exn + pyfloat option) \<times> 'a WalletScanner_scheme" where
  "btc_try_win net address s =
     (case map_of (request_delays s) ''btc'' of
        None \<Rightarrow> (Inl KeyError, s)
      | Some d \<Rightarrow>
          (let s1 = emit [Sleep d, HttpGet (btc_url address)] s in
           case net of
             GetRaises e \<Rightarrow> (Inl e, s1)
           | Response status b \<Rightarrow>
               if status = 200 then
                 (case b of
                    BodyError e \<Rightarrow> (Inl e, s1)
                  | Body data \<Rightarrow> (returning (btc_parse_win data address), s1))
               else if status = 429 then
                 (case scale_delay ''btc'' (request_delays s1) of
                    Inl e \<Rightarrow> (Inl e, s1)
                  | Inr ds \<Rightarrow> (Inr None, emit [Sleep (Fin 2)] (s1\<lparr>request_delays := ds\<rparr>)))
               else (Inr None, s1)))"

definition get_btc_balance_win ::
  "bool \<Rightarrow> http_outcome \<Rightarrow> string \<Rightarrow> 'a WalletScanner_scheme
    \<Rightarrow> (exn + pyfloat) \<times> 'a WalletScanner_scheme" where
  "get_btc_balance_win TESTMODE net address s =
     (if TESTMODE then (Inr (Fin 0), s)
      else (let (r, s1) = btc_try_win net address (emit [Acquire] s)
            in (or_zero (except_Exception r), emit [Release] s1)))"

text \<open>The body of the \<^verbatim>\<open>try\<close> of \<^verbatim>\<open>get_eth_balance\<close>.\<close>

definition eth_try_win ::
  "http_outcome \<Rightarrow> string \<Rightarrow> 'a WalletScanner_scheme
    \<Rightarrow> (exn + pyfloat option) \<times> 'a WalletScanner_scheme" where
  "eth_try_win net address s =
     (case map_of (request_delays s) ''eth'' of
        None \<Rightarrow> (Inl KeyError, s)
      | Some d \<Rightarrow>
          (let s1 = emit [Sleep d, HttpGet (eth_url address)] s in
           case net of
             GetRaises e \<Rightarrow> (Inl e, s1)
           | Response status b \<Rightarrow>
               if status = 200 then
                 (case b of
                    BodyError e \<Rightarrow> (Inl e, s1)
                  | Body data \<Rightarrow> (eth_parse_win data, s1))
               else if status = 429 then
                 (case scale_delay ''eth'' (request_delays s1) of
                    Inl e \<Rightarrow> (Inl e, s1)
                  | Inr ds \<Rightarrow> (Inr None, emit [Sleep (Fin 2)] (s1\<lparr>request_delays := ds\<rparr>)))
               else (Inr None, s1)))"

definition get_eth_balance_win ::
  "bool \<Rightarrow> http_outcome \<Rightarrow> string \<Rightarrow> 'a WalletScanner_scheme
    \<Rightarrow> (exn + pyfloat) \<times> 'a WalletScanner_scheme" where
  "get_eth_balance_win TESTMODE net address s =
     (if TESTMODE then (Inr (Fin 0), s)
      else (let (r, s1) = eth_try_win net address (emit [Acquire] s)
            in (or_zero (except_Exception r), emit [Release] s1)))"

definition check_wallet ::
  "bool \<Rightarrow> http_outcome \<Rightarrow> http_outcome \<Rightarrow> WalletInfo \<Rightarrow> 'a WalletScanner_scheme
    \<Rightarrow> (exn + WalletInfo) \<times> 'a WalletScanner_scheme" where
  "check_wallet TESTMODE net_btc net_eth wallet s =
     (let (r_btc, s1) = get_btc_balance_win TESTMODE net_btc (btc_address wallet) s;
          (r_eth, s2) = get_eth_balance_win TESTMODE net_eth (eth_address wallet) s1
      in (gather_into wallet r_btc r_eth, s2))"

text \<open>
  \<^verbatim>\<open>generate_secure_private_key\<close>: in test mode 63 zeros and the last decimal digit of
  \<open>scan_count\<close>, otherwise the key drawn by \<^verbatim>\<open>secrets.token_hex\<close>.
\<close>

definition generate_secure_private_key ::
  "bool \<Rightarrow> string \<Rightarrow> 'a WalletScanner_scheme \<Rightarrow> string" where
  "generate_secure_private_key TESTMODE drawn s =
     (if TESTMODE then replicate 63 CHR ''0'' @ [char_of (48 + nat (scan_count s mod 10))]
      else drawn)"

text \<open>\<^verbatim>\<open>save_found_wallet\<close>: its handler is \<^verbatim>\<open>except IOError\<close>, an alias of \<^verbatim>\<open>OSError\<close>.\<close>

definition save_found_wallet_win ::
  "bool \<Rightarrow> exn option \<Rightarrow> WalletInfo \<Rightarrow> 'a WalletScanner_scheme
    \<Rightarrow> exn option \<times> 'a WalletScanner_scheme" where
  "save_found_wallet_win TESTMODE fs wallet s =
     (if TESTMODE then (None, s)
      else case fs of
          None \<Rightarrow> (None, emit [AppendFile wallet] s)
        | Some e \<Rightarrow> (if e = OSError then (None, s) else (Some e, s)))"

text \<open>
  \<^verbatim>\<open>display_results\<close> calls \<^verbatim>\<open>display_banner\<close>, whose banner text reads the name
  \<^verbatim>\<open>hdwallet_status\<close>; nothing in \<^verbatim>\<open>cws_win.py\<close> binds that name, so the call raises
  \<^verbatim>\<open>NameError\<close>.
\<close>

definition display_results_win :: "exn option" where
  "display_results_win = Some NameError"

text \<open>\<^verbatim>\<open>max\<close> of a list of floats and \<^verbatim>\<open>min\<close> of two floats, as Python compares them.\<close>

fun py_max :: "pyfloat list \<Rightarrow> exn + pyfloat" where
  "py_max [] = Inl ValueError"
| "py_max (x # xs) = Inr (fold (\<lambda>v m. if fless m v then v else m) xs x)"

definition py_min2 :: "pyfloat \<Rightarrow> pyfloat \<Rightarrow> pyfloat" where
  "py_min2 a b = (if fless b a then b else a)"

text \<open>One pass of the body of the \<^verbatim>\<open>while\<close> of \<^verbatim>\<open>run_scan\<close>.\<close>

definition scan_iteration_win ::
  "bool \<Rightarrow> (string \<Rightarrow> exn + string \<times> string) \<Rightarrow> iter_env \<Rightarrow> 'a WalletScanner_scheme
    \<Rightarrow> exn option \<times> 'a WalletScanner_scheme" where
  "scan_iteration_win TESTMODE derive env s =
     (case generate_wallet_addresses derive
             (generate_secure_private_key TESTMODE (env_key env) s) of
        Inl e \<Rightarrow> (Some e, s)
      | Inr wallet0 \<Rightarrow>
          (case check_wallet TESTMODE (env_btc env) (env_eth env) wallet0 s of
             (Inl e, s1) \<Rightarrow> (Some e, s1)
           | (Inr wallet, s1) \<Rightarrow>
               (let s2 = s1\<lparr>scan_count := scan_count s1 + 1\<rparr>;
                    (r, s3) =
                      (if has_balance wallet
                       then save_found_wallet_win TESTMODE (env_save env) wallet
                              (s2\<lparr>found_count := found_count s2 + 1\<rparr>)
                       else (None, s2))
                in case r of
                     Some e \<Rightarrow> (Some e, s3)
                   | None \<Rightarrow>
                       (case display_results_win of
                          Some e \<Rightarrow> (Some e, s3)
                        | None \<Rightarrow>
                            if \<not> TESTMODE then
                              (case py_max (map snd (request_delays s3)) of
                                 Inl e \<Rightarrow> (Some e, s3)
                               | Inr base_delay \<Rightarrow>
                                   (None, emit [Sleep (py_min2 (fmul base_delay (fround (5 / 10)))
                                                        (fround (1 / 10)))] s3))
                            else (None, s3)))))"

text \<open>
  \<^verbatim>\<open>run_scan(target_scans)\<close>: the loop runs while \<^verbatim>\<open>target_scans is None\<close> or
  \<open>scan_count\<close> is below it, one pass per element of the list of inputs; when the list is
  used up the operator interrupts. The handlers \<^verbatim>\<open>except KeyboardInterrupt\<close> and
  \<^verbatim>\<open>except Exception\<close> both end the method normally.
\<close>

fun run_scan_win ::
  "bool \<Rightarrow> (string \<Rightarrow> exn + string \<times> string) \<Rightarrow> int option \<Rightarrow> iter_env list
    \<Rightarrow> 'a WalletScanner_scheme \<Rightarrow> exn option \<times> 'a WalletScanner_scheme" where
  "run_scan_win TESTMODE derive target_scans [] s = (None, s)"
| "run_scan_win TESTMODE derive target_scans (env # envs) s =
     (if (case target_scans of None \<Rightarrow> True | Some n \<Rightarrow> scan_count s < n) then
        (case scan_iteration_win TESTMODE derive env s of
           (None, s') \<Rightarrow> run_scan_win TESTMODE derive target_scans envs s'
         | (Some e, s') \<Rightarrow>
             (if e = KeyboardInterrupt \<or> is_Exception e then (None, s') else (Some e, s')))
      else (None, s))"

section \<open>Lookups that overlap\<close>

text \<open>
  Both scripts create \<^verbatim>\<open>asyncio.Semaphore(max_concurrent_requests)\<close> once, and every
  balance function does all of its network work inside \<^verbatim>\<open>async with self.semaphore\<close>.
  A call of a balance function is a task with three control points: called and not yet
  inside the \<^verbatim>\<open>async with\<close>, inside it, and finished. The scheduler picks which task moves
  next; a task enters the \<^verbatim>\<open>async with\<close> only while the semaphore's counter is positive,
  and gives the permit back however it leaves the block. In test mode a call returns
  before it reaches the semaphore.
\<close>

datatype task = Called | InFlight | Finished

record pool =
  permits :: int
  tasks :: "task list"

datatype action = Spawn | Enter nat | Leave nat

text \<open>\<^verbatim>\<open>asyncio.Semaphore(value)\<close> raises \<^verbatim>\<open>ValueError\<close> for a negative value.\<close>

definition Semaphore :: "int \<Rightarrow> exn + pool" where
  "Semaphore max_concurrent_requests =
     (if max_concurrent_requests < 0 then Inl ValueError
      else Inr \<lparr>permits = max_concurrent_requests, tasks = []\<rparr>)"

fun step :: "bool \<Rightarrow> action \<Rightarrow> pool \<Rightarrow> pool option" where
  "step TESTMODE Spawn p = Some (p\<lparr>tasks := tasks p @ [Called]\<rparr>)"
| "step TESTMODE (Enter i) p =
     (if i < length (tasks p) \<and> tasks p ! i = Called then
        (if TESTMODE then Some (p\<lparr>tasks := (tasks p)[i := Finished]\<rparr>)
         else if 0 < permits p
           then Some (p\<lparr>permits := permits p - 1, tasks := (tasks p)[i := InFlight]\<rparr>)
           else None)
      else None)"
| "step TESTMODE (Leave i) p =
     (if i < length (tasks p) \<and> tasks p ! i = InFlight
      then Some (p\<lparr>permits := permits p + 1, tasks := (tasks p)[i := Finished]\<rparr>)
      else None)"

fun run :: "bool \<Rightarrow> action list \<Rightarrow> pool \<Rightarrow> pool option" where
  "run TESTMODE [] p = Some p"
| "run TESTMODE (a # as) p =
     (case step TESTMODE a p of None \<Rightarrow> None | Some p' \<Rightarrow> run TESTMODE as p')"

definition in_flight :: "pool \<Rightarrow> nat" where
  "in_flight p = length (filter (\<lambda>t. t = InFlight) (tasks p))"

section \<open>Notions used in the statements\<close>

text \<open>
  An exchange is interrupted when it raises, where the code awaits it, an exception that
  is not an \<^verbatim>\<open>Exception\<close>: the task was cancelled or the operator interrupted.
\<close>

definition interrupted :: "http_outcome \<Rightarrow> bool" where
  "interrupted net =
     (case net of
        GetRaises e \<Rightarrow> \<not> is_Exception e
      | Response status b \<Rightarrow>
          (case b of BodyError e \<Rightarrow> status = 200 \<and> \<not> is_Exception e | Body data \<Rightarrow> False))"

text \<open>
  A lookup failed when the transport raised, the status is not 200, the body could not be
  decoded, or the statements that read the decoded body (\<open>parse\<close>) raised. A body of
  another shape than the service documents, but which those statements read without an
  exception (a boolean or a float where an integer is expected), is not a failed lookup:
  the code has no other check of the body than the exceptions of reading it.
\<close>

definition lookup_failed :: "(json \<Rightarrow> exn + pyfloat option) \<Rightarrow> http_outcome \<Rightarrow> bool" where
  "lookup_failed parse net =
     (case net of
        GetRaises e \<Rightarrow> True
      | Response status b \<Rightarrow>
          status \<noteq> 200 \<or> (case b of BodyError e \<Rightarrow> True | Body data \<Rightarrow> isl (parse data)))"

text \<open>
  The balance that a successful lookup reports: the status is 200 and the statements that
  read the decoded body return a value.
\<close>

definition lookup_value :: "(json \<Rightarrow> exn + pyfloat option) \<Rightarrow> http_outcome \<Rightarrow> pyfloat option" where
  "lookup_value parse net =
     (case net of
        GetRaises e \<Rightarrow> None
      | Response status b \<Rightarrow>
          (case b of
             BodyError e \<Rightarrow> None
           | Body data \<Rightarrow>
               if status = 200
               then (case parse data of Inl e \<Rightarrow> None | Inr r \<Rightarrow> r)
               else None))"

definition positive :: "pyfloat option \<Rightarrow> bool" where
  "positive r = (case r of None \<Rightarrow> False | Some v \<Rightarrow> fless (Fin 0) v)"

text \<open>What a call appended to the trace.\<close>

definition new_events :: "'a AsyncWalletScanner_scheme \<Rightarrow> 'b AsyncWalletScanner_scheme \<Rightarrow> event list" where
  "new_events s s' = drop (length (trace s)) (trace s')"

fun is_HttpGet :: "event \<Rightarrow> bool" where
  "is_HttpGet (HttpGet url) = True"
| "is_HttpGet _ = False"

fun is_AppendFile :: "event \<Rightarrow> bool" where
  "is_AppendFile (AppendFile wallet) = True"
| "is_AppendFile _ = False"

text \<open>The scanner after \<open>n\<close> more Bitcoin lookups that were all answered with status 429.\<close>

fun throttled_btc :: "nat \<Rightarrow> WalletScanner \<Rightarrow> WalletScanner" where
  "throttled_btc 0 s = s"
| "throttled_btc (Suc n) s =
     throttled_btc n (snd (get_btc_balance_win False (Response 429 (Body JNull)) ''addr'' s))"

text \<open>An answer of the Ethereum service that reports a balance of zero.\<close>

definition zero_body :: json where
  "zero_body = JObj [(''status'', JStr ''1''), (''result'', JStr ''0'')]"

text \<open>
  The two counters, and what a pass does to them once the wallet has been checked: an
  exception before that point leaves both as they were.
\<close>

definition counts :: "'a AsyncWalletScanner_scheme \<Rightarrow> int \<times> int" where
  "counts s = (scan_count s, found_count s)"

definition counted :: "exn + WalletInfo \<Rightarrow> int \<times> int \<Rightarrow> int \<times> int" where
  "counted checked c =
     (case checked of
        Inl e \<Rightarrow> c
      | Inr wallet \<Rightarrow> (fst c + 1, snd c + (if has_balance wallet then 1 else 0)))"

text \<open>
  A pass finds a wallet interesting when a lookup that succeeded (status 200, body read
  without an exception) reported a balance above zero. In test mode no lookup is made.
\<close>

definition interesting_v2 :: "bool \<Rightarrow> http_outcome \<Rightarrow> http_outcome \<Rightarrow> WalletInfo \<Rightarrow> bool" where
  "interesting_v2 TESTMODE net_btc net_eth wallet0 =
     (\<not> TESTMODE \<and>
      (positive (lookup_value (\<lambda>d. returning (btc_parse_v2 d (btc_address wallet0))) net_btc)
       \<or> positive (lookup_value eth_parse_v2 net_eth)))"

definition interesting_win :: "bool \<Rightarrow> http_outcome \<Rightarrow> http_outcome \<Rightarrow> WalletInfo \<Rightarrow> bool" where
  "interesting_win TESTMODE net_btc net_eth wallet0 =
     (\<not> TESTMODE \<and>
      (positive (lookup_value (\<lambda>d. returning (btc_parse_win d (btc_address wallet0))) net_btc)
       \<or> positive (lookup_value eth_parse_win net_eth)))"

text \<open>An exchange that was answered with status 429.\<close>

definition throttled :: "http_outcome \<Rightarrow> bool" where
  "throttled net = (case net of GetRaises e \<Rightarrow> False | Response status b \<Rightarrow> status = 429)"

text \<open>
  A delay that the scanner can hold: a positive finite float (the least one is
  \<open>2 ^ -1074\<close>) or the infinity that the product overflows to.
\<close>

definition valid_delay :: "pyfloat \<Rightarrow> bool" where
  "valid_delay d =
     (case d of Fin x \<Rightarrow> 2 powi (- 1074) \<le> x | PosInf \<Rightarrow> True | NegInf \<Rightarrow> False | NaN \<Rightarrow> False)"

definition valid_delays :: "'a WalletScanner_scheme \<Rightarrow> bool" where
  "valid_delays s = list_all (\<lambda>kd. valid_delay (snd kd)) (request_delays s)"

text \<open>
  The events of a call that did all of its work inside \<^verbatim>\<open>async with self.semaphore\<close>: none
  at all, or one acquisition first, one release last and neither in between.
\<close>

fun under_permit :: "event list \<Rightarrow> bool" where
  "under_permit [] = True"
| "under_permit (e # evs) =
     (e = Acquire \<and> evs \<noteq> [] \<and> last evs = Release
      \<and> list_all (\<lambda>x. x \<noteq> Acquire \<and> x \<noteq> Release) (butlast evs))"

text \<open>
  The inputs of an example pass: the HD wallet library derives the addresses \<^verbatim>\<open>1A\<close> and
  \<^verbatim>\<open>0xB\<close>, the Bitcoin service reports 500000000 satoshi, the Ethereum service answers
  with status 429, and the file can be written.
\<close>

definition example_derive :: "string \<Rightarrow> exn + string \<times> string" where
  "example_derive key = Inr (''1A'', ''0xB'')"

definition example_wallet :: WalletInfo where
  "example_wallet = \<lparr>btc_address = ''1A'', eth_address = ''0xB'', private_key = ''k'',
                      btc_balance = Fin 0, eth_balance = Fin 0\<rparr>"

definition example_env :: iter_env where
  "example_env =
     \<lparr>env_key = ''k'',
      env_btc = Response 200 (Body (JObj [(''1A'', JObj [(''final_balance'', JInt 500000000)])])),
      env_eth = Response 429 (Body JNull),
      env_save = None\<rparr>"

section \<open>Rounding to binary64\<close>

lemma rne_lower: "q - 1 / 2 \<le> of_int (rne q)"
  unfolding rne_def Let_def by (auto simp: algebra_simps) linarith+

lemma rne_upper: "of_int (rne q) \<le> q + 1 / 2"
  unfolding rne_def Let_def by (auto simp: algebra_simps) linarith+

lemma rne_of_int: "rne (of_int n) = n"
  unfolding rne_def Let_def by simp

lemma ilog2_lower: assumes "0 < x" shows "2 powi (ilog2 x) \<le> x"
proof -
  obtain a b where ab: "quotient_of x = (a, b)" by (cases "quotient_of x")
  have b: "0 < b" using quotient_of_denom_pos[OF ab] .
  have x: "x = of_int a / of_int b" using quotient_of_div[OF ab] .
  have a: "0 < a" using assms b x by (simp add: zero_less_divide_iff)
  define k where "k = bitlen a - bitlen b"
  show ?thesis
  proof (cases "2 powi k \<le> x")
    case True
    then show ?thesis by (simp add: ilog2_def ab k_def)
  next
    case False
    have la: "(2::int) ^ nat (bitlen a - 1) \<le> a" using bitlen_bounds[OF a] by simp
    have lb: "b < (2::int) ^ nat (bitlen b)" using bitlen_bounds[OF b] by simp
    have la1: "1 \<le> bitlen a" using a by (auto simp: bitlen_alt_def)
    have lb0: "0 \<le> bitlen b" by (rule bitlen_nonneg)
    have ra: "(2::rat) powi (bitlen a - 1) \<le> of_int a"
    proof -
      have "(2::rat) powi (bitlen a - 1) = 2 ^ nat (bitlen a - 1)"
        using la1 by (simp add: power_int_def)
      also have "\<dots> = of_int (2 ^ nat (bitlen a - 1))" by simp
      also have "\<dots> \<le> of_int a" using la by (simp only: of_int_le_iff)
      finally show ?thesis .
    qed
    have rb: "of_int b \<le> (2::rat) powi (bitlen b)"
    proof -
      have "of_int b \<le> (of_int (2 ^ nat (bitlen b)) :: rat)" using lb by (simp only: of_int_le_iff)
      also have "\<dots> = 2 powi (bitlen b)" using lb0 by (simp add: power_int_def)
      finally show ?thesis .
    qed
    have "(2::rat) powi (k - 1) = 2 powi (bitlen a - 1) / 2 powi (bitlen b)"
      by (simp add: k_def power_int_diff)
    also have "\<dots> \<le> of_int a / 2 powi (bitlen b)"
      using ra by (simp add: divide_right_mono)
    also have "\<dots> \<le> of_int a / of_int b"
      using rb a b by (intro divide_left_mono) (auto intro: mult_pos_pos)
    finally have "2 powi (k - 1) \<le> x" using x by simp
    with False show ?thesis by (simp add: ilog2_def ab k_def)
  qed
qed

lemma ilog2_upper: assumes "0 < x" shows "x < 2 powi (ilog2 x + 1)"
proof -
  obtain a b where ab: "quotient_of x = (a, b)" by (cases "quotient_of x")
  have b: "0 < b" using quotient_of_denom_pos[OF ab] .
  have x: "x = of_int a / of_int b" using quotient_of_div[OF ab] .
  have a: "0 < a" using assms b x by (simp add: zero_less_divide_iff)
  define k where "k = bitlen a - bitlen b"
  show ?thesis
  proof (cases "2 powi k \<le> x")
    case False
    then show ?thesis by (simp add: ilog2_def ab k_def)
  next
    case True
    have la: "a < (2::int) ^ nat (bitlen a)" using bitlen_bounds[OF a] by simp
    have lb: "(2::int) ^ nat (bitlen b - 1) \<le> b" using bitlen_bounds[OF b] by simp
    have lb1: "1 \<le> bitlen b" using b by (auto simp: bitlen_alt_def)
    have la0: "0 \<le> bitlen a" by (rule bitlen_nonneg)
    have ra: "of_int a < (2::rat) powi (bitlen a)"
    proof -
      have "of_int a < (of_int (2 ^ nat (bitlen a)) :: rat)" using la by (simp only: of_int_less_iff)
      also have "\<dots> = 2 powi (bitlen a)" using la0 by (simp add: power_int_def)
      finally show ?thesis .
    qed
    have rb: "(2::rat) powi (bitlen b - 1) \<le> of_int b"
    proof -
      have "(2::rat) powi (bitlen b - 1) = 2 ^ nat (bitlen b - 1)"
        using lb1 by (simp add: power_int_def)
      also have "\<dots> = of_int (2 ^ nat (bitlen b - 1))" by simp
      also have "\<dots> \<le> of_int b" using lb by (simp only: of_int_le_iff)
      finally show ?thesis .
    qed
    have "x = of_int a / of_int b" by (rule x)
    also have "\<dots> < 2 powi (bitlen a) / of_int b"
      using ra b by (simp add: divide_strict_right_mono)
    also have "\<dots> \<le> 2 powi (bitlen a) / 2 powi (bitlen b - 1)"
      using rb b by (intro divide_left_mono) (auto intro: mult_pos_pos)
    also have "\<dots> = 2 powi (k + 1)"
      by (simp add: k_def power_int_diff power_int_add)
    finally have "x < 2 powi (k + 1)" .
    with True show ?thesis by (simp add: ilog2_def ab k_def)
  qed
qed

lemma powi_pos: "0 < (2::rat) powi e"
  by (simp add: zero_less_power_int)

lemma round_pos_err:
  assumes x: "0 < x" and L: "- 1022 \<le> ilog2 x"
  shows "\<bar>round_pos x - x\<bar> \<le> x / 2 ^ 53"
proof -
  define e where "e = ilog2 x - 52"
  define p where "p = (2::rat) powi e"
  have p: "0 < p" by (simp add: p_def powi_pos)
  have e: "max (ilog2 x - 52) (- 1074) = e" using L by (simp add: e_def)
  have rp: "round_pos x = of_int (rne (x / p)) * p"
    by (simp add: round_pos_def e p_def Let_def)
  have "\<bar>of_int (rne (x / p)) - x / p\<bar> \<le> 1 / 2"
    using rne_lower[of "x / p"] rne_upper[of "x / p"] by linarith
  then have "\<bar>of_int (rne (x / p)) - x / p\<bar> * p \<le> 1 / 2 * p"
    using p by (intro mult_right_mono) auto
  moreover have "\<bar>of_int (rne (x / p)) - x / p\<bar> * p = \<bar>of_int (rne (x / p)) * p - x\<bar>"
  proof -
    have "\<bar>of_int (rne (x / p)) - x / p\<bar> * p = \<bar>(of_int (rne (x / p)) - x / p) * p\<bar>"
      using p by (simp add: abs_mult)
    also have "(of_int (rne (x / p)) - x / p) * p = of_int (rne (x / p)) * p - x"
      using p by (simp add: algebra_simps)
    finally show ?thesis .
  qed
  ultimately have 1: "\<bar>round_pos x - x\<bar> \<le> p / 2" by (simp add: rp)
  have "p = 2 powi (ilog2 x) / 2 ^ 52"
    by (simp add: p_def e_def power_int_diff)
  also have "\<dots> \<le> x / 2 ^ 52"
    using ilog2_lower[OF x] by (simp add: divide_right_mono)
  finally have "p / 2 \<le> x / 2 ^ 53" by simp
  with 1 show ?thesis by linarith
qed

lemma rne_three_halves: "rne (3 / 2) = 2"
  by code_simp

lemma round_pos_grows:
  assumes d: "2 powi (- 1074) \<le> d"
  shows "d < round_pos (d * (3 / 2))"
proof -
  have d0: "0 < d" using d powi_pos[of "- 1074"] by linarith
  define x where "x = d * (3 / 2)"
  have x: "0 < x" using d0 by (simp add: x_def)
  show ?thesis
  proof (cases "- 1022 \<le> ilog2 x")
    case True
    have "\<bar>round_pos x - x\<bar> \<le> x / 2 ^ 53" by (rule round_pos_err[OF x True])
    then have "x - x / 2 ^ 53 \<le> round_pos x" by linarith
    moreover have "d < x - x / 2 ^ 53" using d0 by (simp add: x_def)
    ultimately have "d < round_pos x" by linarith
    then show ?thesis by (simp only: x_def)
  next
    case False
    define p where "p = (2::rat) powi (- 1074)"
    have p: "0 < p" by (simp add: p_def powi_pos)
    have e: "max (ilog2 x - 52) (- 1074) = - 1074" using False by simp
    have rp: "round_pos x = of_int (rne (x / p)) * p"
      by (simp add: round_pos_def e p_def Let_def)
    define m where "m = d / p"
    have m1: "1 \<le> m" using d p by (simp add: m_def p_def pos_le_divide_eq)
    have q: "x / p = m * (3 / 2)" by (simp add: x_def m_def)
    have "m < of_int (rne (x / p))"
    proof (cases "m = 1")
      case True
      then show ?thesis by (simp add: q rne_three_halves)
    next
      case False
      with m1 have "1 < m" by simp
      then have "m < m * (3 / 2) - 1 / 2" by simp
      also have "\<dots> \<le> of_int (rne (x / p))" using rne_lower[of "x / p"] by (simp add: q)
      finally show ?thesis .
    qed
    then have "m * p < of_int (rne (x / p)) * p" using p by (simp add: mult_strict_right_mono)
    moreover have "m * p = d" using p by (simp add: m_def)
    ultimately have "d < round_pos x" by (simp only: rp)
    then show ?thesis by (simp only: x_def)
  qed
qed

lemma fround_grows:
  assumes "2 powi (- 1074) \<le> d"
  shows "fless (Fin d) (fround (d * (3 / 2)))"
proof -
  have d0: "0 < d" using assms powi_pos[of "- 1074"] by linarith
  have "d < round_pos (d * (3 / 2))" by (rule round_pos_grows[OF assms])
  then show ?thesis using d0 by (simp add: fround_def Let_def)
qed

lemma ilog2_ge:
  assumes "0 < x" and "2 powi k \<le> x"
  shows "k \<le> ilog2 x"
proof (rule ccontr)
  assume "\<not> k \<le> ilog2 x"
  then have "ilog2 x + 1 \<le> k" by simp
  then have "(2::rat) powi (ilog2 x + 1) \<le> 2 powi k"
    by (intro power_int_increasing) auto
  with ilog2_upper[OF assms(1)] assms(2) show False by linarith
qed

lemma ilog2_le:
  assumes "0 < x" and "x \<le> 2 powi k"
  shows "ilog2 x \<le> k"
proof (rule ccontr)
  assume "\<not> ilog2 x \<le> k"
  then have "k + 1 \<le> ilog2 x" by simp
  then have "(2::rat) powi (k + 1) \<le> 2 powi (ilog2 x)"
    by (intro power_int_increasing) auto
  moreover have "(2::rat) powi k < 2 powi (k + 1)"
    by (intro power_int_strict_increasing) auto
  ultimately show False using ilog2_lower[OF assms(1)] assms(2) by linarith
qed

lemma round_pos_int:
  assumes k: "0 < k" and k53: "k \<le> 2 ^ 53"
  shows "round_pos (of_int k) = of_int k"
proof -
  define x where "x = (of_int k :: rat)"
  have x: "0 < x" using k by (simp add: x_def)
  have x1: "1 \<le> x" using k by (simp add: x_def)
  have "(2::rat) powi 0 \<le> x" using x1 by simp
  then have L0: "0 \<le> ilog2 x" by (rule ilog2_ge[OF x])
  have "x \<le> of_int (2 ^ 53)" unfolding x_def using k53 by (simp only: of_int_le_iff)
  then have "x \<le> 2 powi 53" by simp
  then have L53: "ilog2 x \<le> 53" by (rule ilog2_le[OF x])
  define e where "e = ilog2 x - 52"
  have e: "max (ilog2 x - 52) (- 1074) = e" using L0 by (simp add: e_def)
  have rp: "round_pos x = of_int (rne (x / 2 powi e)) * 2 powi e"
    by (simp add: round_pos_def e Let_def)
  show ?thesis
  proof (cases "e \<le> 0")
    case True
    have "x / 2 powi e = x * 2 ^ nat (- e)"
      using True by (simp add: power_int_def field_simps)
    also have "\<dots> = of_int (k * 2 ^ nat (- e))" by (simp add: x_def)
    finally have q: "x / 2 powi e = of_int (k * 2 ^ nat (- e))" .
    have "round_pos x = of_int (k * 2 ^ nat (- e)) * 2 powi e"
      by (simp only: rp q rne_of_int)
    also have "\<dots> = x * 2 ^ nat (- e) * 2 powi e" by (simp add: x_def)
    also have "\<dots> = x" using True by (simp add: power_int_def field_simps)
    finally show ?thesis by (simp add: x_def)
  next
    case False
    then have e1: "e = 1" using L53 by (simp add: e_def)
    then have "ilog2 x = 53" by (simp add: e_def)
    then have "2 powi 53 \<le> x" using ilog2_lower[OF x] by simp
    then have "of_int (2 ^ 53) \<le> (of_int k :: rat)" by (simp add: x_def)
    then have "2 ^ 53 \<le> k" by (simp only: of_int_le_iff)
    with k53 have kk: "k = 2 ^ 53" by simp
    have "x / 2 powi e = of_int (2 ^ 52)" by (simp add: x_def kk e1)
    then have "round_pos x = of_int (2 ^ 52) * 2 powi e"
      by (simp only: rp rne_of_int)
    then show ?thesis by (simp add: x_def kk e1)
  qed
qed

lemma fround_int:
  assumes "\<bar>k\<bar> \<le> 2 ^ 53"
  shows "fround (of_int k) = Fin (of_int k)"
proof -
  consider "k = 0" | "0 < k" | "k < 0" by linarith
  then show ?thesis
  proof cases
    case 1
    then show ?thesis by (simp add: fround_def)
  next
    case 2
    then have "round_pos (of_int k) = of_int k" using assms by (intro round_pos_int) auto
    moreover have "(of_int k :: rat) < 2 ^ 1024"
    proof -
      have "(of_int k :: rat) \<le> of_int (2 ^ 53)" using assms 2 by (simp only: of_int_le_iff)
      also have "\<dots> < 2 ^ 1024" by simp
      finally show ?thesis .
    qed
    ultimately show ?thesis using 2 by (simp add: fround_def Let_def)
  next
    case 3
    then have "round_pos (of_int (- k)) = of_int (- k)" using assms by (intro round_pos_int) auto
    moreover have "(of_int (- k) :: rat) < 2 ^ 1024"
    proof -
      have "(of_int (- k) :: rat) \<le> of_int (2 ^ 53)" using assms 3 by (simp only: of_int_le_iff)
      also have "\<dots> < 2 ^ 1024" by simp
      finally show ?thesis .
    qed
    ultimately show ?thesis using 3 by (simp add: fround_def Let_def)
  qed
qed

lemma ilog2_less:
  assumes "0 < x" and "x < 2 powi k"
  shows "ilog2 x < k"
proof (rule ccontr)
  assume "\<not> ilog2 x < k"
  then have "k \<le> ilog2 x" by simp
  then have "(2::rat) powi k \<le> 2 powi (ilog2 x)"
    by (intro power_int_increasing) auto
  with ilog2_lower[OF assms(1)] assms(2) show False by linarith
qed

lemma round_pos_dyadic:
  assumes m: "0 < m" "m < 2 ^ 53" and e: "- 1074 \<le> e"
  shows "round_pos (of_int m * 2 powi e) = of_int m * 2 powi e"
proof -
  define x where "x = (of_int m :: rat) * 2 powi e"
  have x: "0 < x" using m by (simp add: x_def powi_pos)
  have "(of_int m :: rat) < of_int (2 ^ 53)" using m(2) by (simp only: of_int_less_iff)
  then have "(of_int m :: rat) < 2 powi 53" by simp
  then have "x < 2 powi 53 * 2 powi e"
    unfolding x_def using powi_pos[of e] by (simp add: mult_strict_right_mono)
  also have "\<dots> = 2 powi (53 + e)" by (simp add: power_int_add)
  finally have "ilog2 x < 53 + e" by (rule ilog2_less[OF x])
  define e' where "e' = max (ilog2 x - 52) (- 1074)"
  have e': "e' \<le> e" using \<open>ilog2 x < 53 + e\<close> e by (simp add: e'_def)
  have "x / 2 powi e' = of_int m * (2 powi e / 2 powi e')" by (simp add: x_def)
  also have "2 powi e / 2 powi e' = (2::rat) powi (e - e')" by (simp add: power_int_diff)
  also have "\<dots> = 2 ^ nat (e - e')" using e' by (simp add: power_int_def)
  finally have q: "x / 2 powi e' = of_int (m * 2 ^ nat (e - e'))" by simp
  have "round_pos x = of_int (rne (x / 2 powi e')) * 2 powi e'"
    by (simp add: round_pos_def e'_def Let_def)
  also have "\<dots> = x / 2 powi e' * 2 powi e'" by (simp only: q rne_of_int)
  also have "\<dots> = x" using powi_pos[of e'] by simp
  finally show ?thesis by (simp add: x_def)
qed

lemma fround_dyadic:
  assumes m: "0 < m" "m < 2 ^ 53" and e: "- 1074 \<le> e" "e \<le> 970"
  shows "fround (of_int m * 2 powi e) = Fin (of_int m * 2 powi e)"
proof -
  define x where "x = (of_int m :: rat) * 2 powi e"
  have x: "0 < x" using m by (simp add: x_def powi_pos)
  have "(of_int m :: rat) < of_int (2 ^ 53)" using m(2) by (simp only: of_int_less_iff)
  then have "(of_int m :: rat) < 2 powi 53" by simp
  then have "x < 2 powi 53 * 2 powi e"
    unfolding x_def using powi_pos[of e] by (simp add: mult_strict_right_mono)
  also have "\<dots> = 2 powi (53 + e)" by (simp add: power_int_add)
  also have "\<dots> \<le> 2 powi 1024" using e by (intro power_int_increasing) auto
  finally have "x < 2 ^ 1024" by simp
  moreover have "round_pos x = x" unfolding x_def by (rule round_pos_dyadic[OF m e(1)])
  ultimately show ?thesis using x by (simp add: fround_def Let_def x_def)
qed

lemma fround_one_and_a_half: "fround (3 / 2) = Fin (3 / 2)"
  using fround_dyadic[of 3 "- 1"] by simp

lemma fround_half: "fround (1 / 2) = Fin (1 / 2)"
  using fround_dyadic[of 1 "- 1"] by simp

lemma three_pow_small: "k \<le> 33 \<Longrightarrow> (3::int) ^ k < 2 ^ 53"
proof -
  assume "k \<le> 33"
  then have "(3::int) ^ k \<le> 3 ^ 33" by (intro power_increasing) auto
  also have "\<dots> < 2 ^ 53" by simp
  finally show ?thesis .
qed

lemma scaled_half:
  "k \<le> 33 \<Longrightarrow> ((\<lambda>x. fmul x (Fin (3 / 2))) ^^ k) (Fin (1 / 2)) = Fin (3 ^ k / 2 ^ (k + 1))"
proof (induction k)
  case 0
  then show ?case by simp
next
  case (Suc k)
  then have IH: "((\<lambda>x. fmul x (Fin (3 / 2))) ^^ k) (Fin (1 / 2)) = Fin (3 ^ k / 2 ^ (k + 1))"
    by simp
  have d: "fround (of_int (3 ^ Suc k) * 2 powi (- int (Suc k + 1)))
      = Fin (of_int (3 ^ Suc k) * 2 powi (- int (Suc k + 1)))"
    using Suc.prems three_pow_small[of "Suc k"] by (intro fround_dyadic) auto
  have v: "(of_int (3 ^ Suc k) :: rat) * 2 powi (- int (Suc k + 1)) = 3 ^ Suc k / 2 ^ (Suc k + 1)"
  proof -
    have "(2::rat) powi (- int (Suc k + 1)) = inverse (2 ^ (Suc k + 1))"
      by (simp only: power_int_minus power_int_of_nat)
    then show ?thesis by (simp add: field_simps)
  qed
  have a: "fround (3 ^ Suc k / 2 ^ (Suc k + 1)) = Fin (3 ^ Suc k / 2 ^ (Suc k + 1))"
    using d unfolding v .
  have c: "(3::rat) ^ k / 2 ^ (k + 1) * (3 / 2) = 3 ^ Suc k / 2 ^ (Suc k + 1)"
    by simp
  have "((\<lambda>x. fmul x (Fin (3 / 2))) ^^ Suc k) (Fin (1 / 2))
      = fmul (Fin (3 ^ k / 2 ^ (k + 1))) (Fin (3 / 2))"
    by (simp only: funpow.simps o_apply IH)
  also have "\<dots> = fround (3 ^ k / 2 ^ (k + 1) * (3 / 2))" by (simp only: fmul.simps)
  also have "\<dots> = Fin (3 ^ Suc k / 2 ^ (Suc k + 1))" by (simp only: c a)
  finally show ?case .
qed

section \<open>What the balance functions raise and return\<close>

lemma py_getitem_exn: "py_getitem d k = Inl e \<Longrightarrow> is_Exception e"
  by (cases d) (auto split: option.splits)

lemma py_get_exn: "py_get d k dflt = Inl e \<Longrightarrow> is_Exception e"
  by (cases d) (auto split: option.splits)

lemma py_int_exn: "py_int v = Inl e \<Longrightarrow> is_Exception e"
  by (cases v rule: py_int.cases) (auto split: option.splits)

lemma int_truediv_exn: "int_truediv a b = Inl e \<Longrightarrow> is_Exception e"
  by (auto simp: int_truediv_def split: if_splits pyfloat.splits)

lemma float_truediv_int_exn: "float_truediv_int f b = Inl e \<Longrightarrow> is_Exception e"
  by (auto simp: float_truediv_int_def split: if_splits pyfloat.splits)

lemma py_truediv_exn: "py_truediv v b = Inl e \<Longrightarrow> is_Exception e"
  by (cases v) (auto dest: int_truediv_exn float_truediv_int_exn)

lemma bind_exn_Inl:
  "bind_exn m f = Inl e \<Longrightarrow> m = Inl e \<or> (\<exists>x. m = Inr x \<and> f x = Inl e)"
  by (cases m) (auto simp: bind_exn_def)

lemma returning_Inl: "returning m = Inl e \<longleftrightarrow> m = Inl e"
  by (cases m) (auto simp: returning_def)

lemma btc_parse_v2_exn: "btc_parse_v2 d a = Inl e \<Longrightarrow> is_Exception e"
  unfolding btc_parse_v2_def
  by (auto dest!: bind_exn_Inl dest: py_getitem_exn py_truediv_exn)

lemma btc_parse_win_exn: "btc_parse_win d a = Inl e \<Longrightarrow> is_Exception e"
  unfolding btc_parse_win_def
  by (auto dest!: bind_exn_Inl dest: py_get_exn py_truediv_exn)

lemma eth_parse_v2_exn: "eth_parse_v2 d = Inl e \<Longrightarrow> is_Exception e"
  unfolding eth_parse_v2_def
  by (auto simp: returning_Inl dest!: bind_exn_Inl dest: py_getitem_exn py_int_exn int_truediv_exn
      split: if_splits)

lemma eth_parse_win_exn: "eth_parse_win d = Inl e \<Longrightarrow> is_Exception e"
  unfolding eth_parse_win_def
  by (auto simp: returning_Inl dest!: bind_exn_Inl dest: py_get_exn py_int_exn int_truediv_exn
      split: if_splits)

lemma or_zero_caught:
  "(\<And>e. r = Inl e \<Longrightarrow> is_Exception e) \<Longrightarrow> \<exists>v. or_zero (except_Exception r) = Inr v"
  by (cases r rule: or_zero.cases) auto

lemma or_zero_raised:
  "r = Inl e \<Longrightarrow> is_Exception e \<Longrightarrow> or_zero (except_Exception r) = Inr (Fin 0)"
  by simp

lemma isl_returning: "isl (returning m) = isl m"
  by (cases m) (auto simp: returning_def)

lemma btc_try_v2_Inl:
  "\<not> interrupted net \<Longrightarrow> btc_try_v2 net a = Inl e \<Longrightarrow> is_Exception e"
  by (auto simp: btc_try_v2_def interrupted_def returning_Inl dest: btc_parse_v2_exn
      split: http_outcome.splits body.splits if_splits)

lemma eth_try_v2_Inl:
  "\<not> interrupted net \<Longrightarrow> eth_try_v2 net = Inl e \<Longrightarrow> is_Exception e"
  by (auto simp: eth_try_v2_def interrupted_def dest: eth_parse_v2_exn
      split: http_outcome.splits body.splits if_splits)

lemma scale_delay_exn: "scale_delay k ds = Inl e \<Longrightarrow> is_Exception e"
  by (auto simp: scale_delay_def split: option.splits)

lemma btc_try_win_Inl:
  "\<not> interrupted net \<Longrightarrow> fst (btc_try_win net a s) = Inl e \<Longrightarrow> is_Exception e"
  by (auto simp: btc_try_win_def interrupted_def returning_Inl Let_def
      dest: btc_parse_win_exn scale_delay_exn
      split: http_outcome.splits body.splits if_splits option.splits sum.splits)

lemma eth_try_win_Inl:
  "\<not> interrupted net \<Longrightarrow> fst (eth_try_win net a s) = Inl e \<Longrightarrow> is_Exception e"
  by (auto simp: eth_try_win_def interrupted_def Let_def
      dest: eth_parse_win_exn scale_delay_exn
      split: http_outcome.splits body.splits if_splits option.splits sum.splits)

lemma btc_try_v2_failed:
  assumes "lookup_failed (\<lambda>d. returning (btc_parse_v2 d a)) net" and "\<not> interrupted net"
  shows "or_zero (except_Exception (btc_try_v2 net a)) = Inr (Fin 0)"
proof (cases "btc_try_v2 net a")
  case (Inl e)
  then show ?thesis using btc_try_v2_Inl[OF assms(2) Inl] by simp
next
  case (Inr r)
  then have "r = None" using assms(1)
    by (auto simp: btc_try_v2_def lookup_failed_def isl_returning isl_def
        split: http_outcome.splits body.splits if_splits)
  with Inr show ?thesis by simp
qed

lemma eth_try_v2_failed:
  assumes "lookup_failed eth_parse_v2 net" and "\<not> interrupted net"
  shows "or_zero (except_Exception (eth_try_v2 net)) = Inr (Fin 0)"
proof (cases "eth_try_v2 net")
  case (Inl e)
  then show ?thesis using eth_try_v2_Inl[OF assms(2) Inl] by simp
next
  case (Inr r)
  then have "r = None" using assms(1)
    by (auto simp: eth_try_v2_def lookup_failed_def isl_def
        split: http_outcome.splits body.splits if_splits)
  with Inr show ?thesis by simp
qed

lemma btc_try_win_failed:
  assumes "lookup_failed (\<lambda>d. returning (btc_parse_win d a)) net" and "\<not> interrupted net"
  shows "or_zero (except_Exception (fst (btc_try_win net a s))) = Inr (Fin 0)"
proof (cases "fst (btc_try_win net a s)")
  case (Inl e)
  then show ?thesis using btc_try_win_Inl[OF assms(2) Inl] by simp
next
  case (Inr r)
  then have "r = None" using assms(1)
    by (auto simp: btc_try_win_def lookup_failed_def isl_returning isl_def Let_def
        split: http_outcome.splits body.splits if_splits option.splits sum.splits)
  with Inr show ?thesis by simp
qed

lemma eth_try_win_failed:
  assumes "lookup_failed eth_parse_win net" and "\<not> interrupted net"
  shows "or_zero (except_Exception (fst (eth_try_win net a s))) = Inr (Fin 0)"
proof (cases "fst (eth_try_win net a s)")
  case (Inl e)
  then show ?thesis using eth_try_win_Inl[OF assms(2) Inl] by simp
next
  case (Inr r)
  then have "r = None" using assms(1)
    by (auto simp: eth_try_win_def lookup_failed_def isl_def Let_def
        split: http_outcome.splits body.splits if_splits option.splits sum.splits)
  with Inr show ?thesis by simp
qed

lemma fst_get_btc_balance_v2:
  "fst (get_btc_balance_v2 T net a s) =
     (if T then Inr (Fin 0) else or_zero (except_Exception (btc_try_v2 net a)))"
  by (simp add: get_btc_balance_v2_def)

lemma fst_get_eth_balance_v2:
  "fst (get_eth_balance_v2 T net a s) =
     (if T then Inr (Fin 0) else or_zero (except_Exception (eth_try_v2 net)))"
  by (simp add: get_eth_balance_v2_def)

lemma fst_get_btc_balance_win:
  "fst (get_btc_balance_win T net a s) =
     (if T then Inr (Fin 0)
      else or_zero (except_Exception (fst (btc_try_win net a (emit [Acquire] s)))))"
  by (simp add: get_btc_balance_win_def split_beta)

lemma fst_get_eth_balance_win:
  "fst (get_eth_balance_win T net a s) =
     (if T then Inr (Fin 0)
      else or_zero (except_Exception (fst (eth_try_win net a (emit [Acquire] s)))))"
  by (simp add: get_eth_balance_win_def split_beta)

lemma get_btc_balance_v2_returns:
  "\<not> interrupted net \<Longrightarrow> \<exists>v. fst (get_btc_balance_v2 T net a s) = Inr v"
  unfolding fst_get_btc_balance_v2 using or_zero_caught[OF btc_try_v2_Inl] by auto

lemma get_eth_balance_v2_returns:
  "\<not> interrupted net \<Longrightarrow> \<exists>v. fst (get_eth_balance_v2 T net a s) = Inr v"
  unfolding fst_get_eth_balance_v2 using or_zero_caught[OF eth_try_v2_Inl] by auto

lemma get_btc_balance_win_returns:
  "\<not> interrupted net \<Longrightarrow> \<exists>v. fst (get_btc_balance_win T net a s) = Inr v"
  unfolding fst_get_btc_balance_win using or_zero_caught[OF btc_try_win_Inl] by auto

lemma get_eth_balance_win_returns:
  "\<not> interrupted net \<Longrightarrow> \<exists>v. fst (get_eth_balance_win T net a s) = Inr v"
  unfolding fst_get_eth_balance_win using or_zero_caught[OF eth_try_win_Inl] by auto

lemma gather_into_Inr:
  "gather_into wallet (Inr b) (Inr e) = Inr (wallet\<lparr>btc_balance := b, eth_balance := e\<rparr>)"
  by (simp add: gather_into_def)

lemma check_wallet_balances_returns:
  assumes "\<not> interrupted net_btc" and "\<not> interrupted net_eth"
  shows "\<exists>b e. fst (get_btc_balance_v2 T net_btc (btc_address wallet) s) = Inr b
           \<and> fst (get_eth_balance_v2 T net_eth (eth_address wallet)
                   (snd (get_btc_balance_v2 T net_btc (btc_address wallet) s))) = Inr e
           \<and> fst (check_wallet_balances T net_btc net_eth wallet s)
               = Inr (wallet\<lparr>btc_balance := b, eth_balance := e\<rparr>)"
proof -
  obtain b where b: "fst (get_btc_balance_v2 T net_btc (btc_address wallet) s) = Inr b"
    using get_btc_balance_v2_returns[OF assms(1)] by blast
  obtain e where e: "fst (get_eth_balance_v2 T net_eth (eth_address wallet)
      (snd (get_btc_balance_v2 T net_btc (btc_address wallet) s))) = Inr e"
    using get_eth_balance_v2_returns[OF assms(2)] by blast
  have "fst (check_wallet_balances T net_btc net_eth wallet s)
      = Inr (wallet\<lparr>btc_balance := b, eth_balance := e\<rparr>)"
    using b e by (simp add: check_wallet_balances_def split_beta gather_into_Inr)
  with b e show ?thesis by blast
qed

lemma check_wallet_returns:
  assumes "\<not> interrupted net_btc" and "\<not> interrupted net_eth"
  shows "\<exists>b e. fst (get_btc_balance_win T net_btc (btc_address wallet) w) = Inr b
           \<and> fst (get_eth_balance_win T net_eth (eth_address wallet)
                   (snd (get_btc_balance_win T net_btc (btc_address wallet) w))) = Inr e
           \<and> fst (check_wallet T net_btc net_eth wallet w)
               = Inr (wallet\<lparr>btc_balance := b, eth_balance := e\<rparr>)"
proof -
  obtain b where b: "fst (get_btc_balance_win T net_btc (btc_address wallet) w) = Inr b"
    using get_btc_balance_win_returns[OF assms(1)] by blast
  obtain e where e: "fst (get_eth_balance_win T net_eth (eth_address wallet)
      (snd (get_btc_balance_win T net_btc (btc_address wallet) w))) = Inr e"
    using get_eth_balance_win_returns[OF assms(2)] by blast
  have "fst (check_wallet T net_btc net_eth wallet w)
      = Inr (wallet\<lparr>btc_balance := b, eth_balance := e\<rparr>)"
    using b e by (simp add: check_wallet_def split_beta gather_into_Inr)
  with b e show ?thesis by blast
qed

lemma status_get_iff:
  "py_get data ''status'' JNull = Inr (JStr ''1'') \<longleftrightarrow> py_getitem data ''status'' = Inr (JStr ''1'')"
  by (cases data) (auto split: option.splits)

lemma int_of_str_0: "int_of_str ''0'' = Some 0"
  by code_simp

lemma int_truediv_0: "b \<noteq> 0 \<Longrightarrow> int_truediv 0 b = Inr (Fin 0)"
  by (simp add: int_truediv_def fround_def)

lemma eth_parse_v2_zero: "eth_parse_v2 zero_body = Inr (Some (Fin 0))"
  by (simp add: eth_parse_v2_def zero_body_def bind_exn_def returning_def int_of_str_0 int_truediv_0)

lemma eth_parse_win_zero: "eth_parse_win zero_body = Inr (Some (Fin 0))"
  by (simp add: eth_parse_win_def zero_body_def bind_exn_def returning_def int_of_str_0 int_truediv_0)

lemma eth_parse_v2_not_one:
  assumes "py_getitem data ''status'' \<noteq> Inr (JStr ''1'')"
  shows "or_zero (except_Exception (eth_parse_v2 data)) = Inr (Fin 0)"
proof (cases "py_getitem data ''status''")
  case (Inl e)
  then have "eth_parse_v2 data = Inl e" by (simp add: eth_parse_v2_def bind_exn_def)
  then show ?thesis using py_getitem_exn[OF Inl] by simp
next
  case (Inr st)
  then have "eth_parse_v2 data = Inr None" using assms by (simp add: eth_parse_v2_def bind_exn_def)
  then show ?thesis by simp
qed

lemma eth_parse_win_not_one:
  assumes "py_getitem data ''status'' \<noteq> Inr (JStr ''1'')"
  shows "or_zero (except_Exception (eth_parse_win data)) = Inr (Fin 0)"
proof (cases "py_get data ''status'' JNull")
  case (Inl e)
  then have "eth_parse_win data = Inl e" by (simp add: eth_parse_win_def bind_exn_def)
  then show ?thesis using py_get_exn[OF Inl] by simp
next
  case (Inr st)
  then have "st \<noteq> JStr ''1''" using assms status_get_iff[of data] by auto
  with Inr have "eth_parse_win data = Inr None" by (simp add: eth_parse_win_def bind_exn_def)
  then show ?thesis by simp
qed

section \<open>The counters of the scan loop\<close>

lemma emit_fields [simp]:
  "scan_count (emit evs s) = scan_count s"
  "found_count (emit evs s) = found_count s"
  "trace (emit evs s) = trace s @ evs"
  by (simp_all add: emit_def)

lemma emit_request_delays [simp]: "request_delays (emit evs s) = request_delays s"
  by (simp add: emit_def)

lemma snd_get_btc_balance_v2:
  "snd (get_btc_balance_v2 T net a s) = (if T then s else emit [Acquire, HttpGet (btc_url a), Release] s)"
  by (simp add: get_btc_balance_v2_def)

lemma snd_get_eth_balance_v2:
  "snd (get_eth_balance_v2 T net a s) = (if T then s else emit [Acquire, HttpGet (eth_url a), Release] s)"
  by (simp add: get_eth_balance_v2_def)

lemma snd_check_wallet_balances:
  "snd (check_wallet_balances T nb ne wallet s) =
     (if T then s
      else emit [Acquire, HttpGet (btc_url (btc_address wallet)), Release,
                 Acquire, HttpGet (eth_url (eth_address wallet)), Release] s)"
  by (simp add: check_wallet_balances_def split_beta snd_get_btc_balance_v2 snd_get_eth_balance_v2
      emit_def)

lemma btc_try_win_counts:
  "scan_count (snd (btc_try_win net a s)) = scan_count s
   \<and> found_count (snd (btc_try_win net a s)) = found_count s"
  by (simp add: btc_try_win_def Let_def
      split: option.splits http_outcome.splits body.splits sum.splits)

lemma eth_try_win_counts:
  "scan_count (snd (eth_try_win net a s)) = scan_count s
   \<and> found_count (snd (eth_try_win net a s)) = found_count s"
  by (simp add: eth_try_win_def Let_def
      split: option.splits http_outcome.splits body.splits sum.splits)

lemma get_btc_balance_win_counts:
  "scan_count (snd (get_btc_balance_win T net a s)) = scan_count s
   \<and> found_count (snd (get_btc_balance_win T net a s)) = found_count s"
  by (simp add: get_btc_balance_win_def split_beta btc_try_win_counts)

lemma get_eth_balance_win_counts:
  "scan_count (snd (get_eth_balance_win T net a s)) = scan_count s
   \<and> found_count (snd (get_eth_balance_win T net a s)) = found_count s"
  by (simp add: get_eth_balance_win_def split_beta eth_try_win_counts)

lemma check_wallet_counts:
  "scan_count (snd (check_wallet T nb ne wallet s)) = scan_count s
   \<and> found_count (snd (check_wallet T nb ne wallet s)) = found_count s"
  by (simp add: check_wallet_def split_beta get_btc_balance_win_counts get_eth_balance_win_counts)

lemma check_wallet_balances_counts:
  "scan_count (snd (check_wallet_balances T nb ne wallet s)) = scan_count s
   \<and> found_count (snd (check_wallet_balances T nb ne wallet s)) = found_count s"
  by (simp add: snd_check_wallet_balances)

lemma save_found_wallet_v2_counts:
  "scan_count (snd (save_found_wallet_v2 T fs wallet s)) = scan_count s
   \<and> found_count (snd (save_found_wallet_v2 T fs wallet s)) = found_count s"
  by (simp add: save_found_wallet_v2_def split: option.splits)

lemma save_found_wallet_win_counts:
  "scan_count (snd (save_found_wallet_win T fs wallet s)) = scan_count s
   \<and> found_count (snd (save_found_wallet_win T fs wallet s)) = found_count s"
  by (simp add: save_found_wallet_win_def split: option.splits)

lemma scan_iteration_v2_counts:
  "counts (snd (scan_iteration_v2 T derive env s)) =
     (case generate_wallet_addresses derive (env_key env) of
        Inl e \<Rightarrow> counts s
      | Inr wallet0 \<Rightarrow>
          counted (fst (check_wallet_balances T (env_btc env) (env_eth env) wallet0 s)) (counts s))"
proof (cases "generate_wallet_addresses derive (env_key env)")
  case (Inl e)
  then show ?thesis by (simp add: scan_iteration_v2_def)
next
  case (Inr wallet0)
  obtain r s1 where c: "check_wallet_balances T (env_btc env) (env_eth env) wallet0 s = (r, s1)"
    by (cases "check_wallet_balances T (env_btc env) (env_eth env) wallet0 s")
  have s1: "scan_count s1 = scan_count s" "found_count s1 = found_count s"
    using check_wallet_balances_counts[of T "env_btc env" "env_eth env" wallet0 s] c by simp_all
  show ?thesis
  proof (cases r)
    case (Inl e)
    then show ?thesis using Inr c s1 by (simp add: scan_iteration_v2_def counted_def counts_def)
  next
    case (Inr wallet)
    define s2 where "s2 = s1\<lparr>scan_count := scan_count s1 + 1\<rparr>"
    obtain r3 s3 where sv: "(if has_balance wallet
        then save_found_wallet_v2 T (env_save env) wallet (s2\<lparr>found_count := found_count s2 + 1\<rparr>)
        else (None, s2)) = (r3, s3)"
      by (cases "if has_balance wallet
        then save_found_wallet_v2 T (env_save env) wallet (s2\<lparr>found_count := found_count s2 + 1\<rparr>)
        else (None, s2)")
    have s3: "scan_count s3 = scan_count s + 1"
      "found_count s3 = found_count s + (if has_balance wallet then 1 else 0)"
      using sv s1 save_found_wallet_v2_counts[of T "env_save env" wallet
          "s2\<lparr>found_count := found_count s2 + 1\<rparr>"]
      by (auto simp: s2_def split: if_splits)
    have "counts (snd (scan_iteration_v2 T derive env s)) = counts s3"
      using \<open>generate_wallet_addresses derive (env_key env) = Inr wallet0\<close> c Inr sv
      by (cases r3) (simp_all add: scan_iteration_v2_def s2_def[symmetric] counts_def)
    then show ?thesis
      using \<open>generate_wallet_addresses derive (env_key env) = Inr wallet0\<close> c Inr s3
      by (simp add: counted_def counts_def)
  qed
qed

lemma scan_iteration_win_counts:
  "counts (snd (scan_iteration_win T derive env s)) =
     (case generate_wallet_addresses derive (generate_secure_private_key T (env_key env) s) of
        Inl e \<Rightarrow> counts s
      | Inr wallet0 \<Rightarrow>
          counted (fst (check_wallet T (env_btc env) (env_eth env) wallet0 s)) (counts s))"
proof (cases "generate_wallet_addresses derive (generate_secure_private_key T (env_key env) s)")
  case (Inl e)
  then show ?thesis by (simp add: scan_iteration_win_def)
next
  case (Inr wallet0)
  obtain r s1 where c: "check_wallet T (env_btc env) (env_eth env) wallet0 s = (r, s1)"
    by (cases "check_wallet T (env_btc env) (env_eth env) wallet0 s")
  have s1: "scan_count s1 = scan_count s" "found_count s1 = found_count s"
    using check_wallet_counts[of T "env_btc env" "env_eth env" wallet0 s] c by simp_all
  show ?thesis
  proof (cases r)
    case (Inl e)
    then show ?thesis using Inr c s1 by (simp add: scan_iteration_win_def counted_def counts_def)
  next
    case (Inr wallet)
    define s2 where "s2 = s1\<lparr>scan_count := scan_count s1 + 1\<rparr>"
    obtain r3 s3 where sv: "(if has_balance wallet
        then save_found_wallet_win T (env_save env) wallet (s2\<lparr>found_count := found_count s2 + 1\<rparr>)
        else (None, s2)) = (r3, s3)"
      by (cases "if has_balance wallet
        then save_found_wallet_win T (env_save env) wallet (s2\<lparr>found_count := found_count s2 + 1\<rparr>)
        else (None, s2)")
    have s3: "scan_count s3 = scan_count s + 1"
      "found_count s3 = found_count s + (if has_balance wallet then 1 else 0)"
      using sv s1 save_found_wallet_win_counts[of T "env_save env" wallet
          "s2\<lparr>found_count := found_count s2 + 1\<rparr>"]
      by (auto simp: s2_def split: if_splits)
    have "counts (snd (scan_iteration_win T derive env s)) = counts s3"
      using \<open>generate_wallet_addresses derive (generate_secure_private_key T (env_key env) s) = Inr wallet0\<close>
        c Inr sv
      by (cases r3)
        (simp_all add: scan_iteration_win_def s2_def[symmetric] counts_def display_results_win_def)
    then show ?thesis
      using \<open>generate_wallet_addresses derive (generate_secure_private_key T (env_key env) s) = Inr wallet0\<close>
        c Inr s3
      by (simp add: counted_def counts_def)
  qed
qed

lemma counted_le:
  "snd c \<le> fst c \<Longrightarrow> snd (counted r c) \<le> fst (counted r c)"
  by (cases r) (simp_all add: counted_def)

lemma scan_iteration_v2_le:
  assumes "found_count s \<le> scan_count s"
  shows "found_count (snd (scan_iteration_v2 T derive env s))
          \<le> scan_count (snd (scan_iteration_v2 T derive env s))"
proof -
  have "snd (counts (snd (scan_iteration_v2 T derive env s)))
          \<le> fst (counts (snd (scan_iteration_v2 T derive env s)))"
    unfolding scan_iteration_v2_counts using assms counted_le[of "counts s"]
    by (simp add: counts_def split: sum.splits)
  then show ?thesis by (simp add: counts_def)
qed

lemma scan_iteration_win_le:
  assumes "found_count s \<le> scan_count s"
  shows "found_count (snd (scan_iteration_win T derive env s))
          \<le> scan_count (snd (scan_iteration_win T derive env s))"
proof -
  have "snd (counts (snd (scan_iteration_win T derive env s)))
          \<le> fst (counts (snd (scan_iteration_win T derive env s)))"
    unfolding scan_iteration_win_counts using assms counted_le[of "counts s"]
    by (simp add: counts_def split: sum.splits)
  then show ?thesis by (simp add: counts_def)
qed

lemma run_scan_v2_le:
  "found_count s \<le> scan_count s \<Longrightarrow>
   found_count (snd (run_scan_v2 T derive envs s)) \<le> scan_count (snd (run_scan_v2 T derive envs s))"
proof (induction envs arbitrary: s)
  case Nil
  then show ?case by simp
next
  case (Cons env envs)
  obtain r s' where it: "scan_iteration_v2 T derive env s = (r, s')"
    by (cases "scan_iteration_v2 T derive env s")
  have le: "found_count s' \<le> scan_count s'"
    using scan_iteration_v2_le[OF Cons.prems, of T derive env] it by simp
  show ?case
  proof (cases r)
    case None
    then show ?thesis using it Cons.IH[OF le] by simp
  next
    case (Some e)
    then show ?thesis using it le by simp
  qed
qed

lemma run_scan_win_le:
  "found_count s \<le> scan_count s \<Longrightarrow>
   found_count (snd (run_scan_win T derive target envs s))
     \<le> scan_count (snd (run_scan_win T derive target envs s))"
proof (induction envs arbitrary: s)
  case Nil
  then show ?case by simp
next
  case (Cons env envs)
  obtain r s' where it: "scan_iteration_win T derive env s = (r, s')"
    by (cases "scan_iteration_win T derive env s")
  have le: "found_count s' \<le> scan_count s'"
    using scan_iteration_win_le[OF Cons.prems, of T derive env] it by simp
  show ?case
  proof (cases r)
    case None
    then show ?thesis using it Cons.IH[OF le] Cons.prems by simp
  next
    case (Some e)
    then show ?thesis using it le Cons.prems by simp
  qed
qed

section \<open>Positive balances\<close>

lemma or_zero_positive:
  "or_zero (except_Exception r) = Inr v \<Longrightarrow>
   fless (Fin 0) v = positive (case r of Inl e \<Rightarrow> None | Inr x \<Rightarrow> x)"
  by (cases r rule: or_zero.cases) (auto simp: positive_def split: if_splits)

lemma btc_try_v2_value:
  "(case btc_try_v2 net a of Inl e \<Rightarrow> None | Inr x \<Rightarrow> x)
     = lookup_value (\<lambda>d. returning (btc_parse_v2 d a)) net"
  by (auto simp: btc_try_v2_def lookup_value_def returning_def
      split: http_outcome.splits body.splits sum.splits)

lemma eth_try_v2_value:
  "(case eth_try_v2 net of Inl e \<Rightarrow> None | Inr x \<Rightarrow> x) = lookup_value eth_parse_v2 net"
  by (auto simp: eth_try_v2_def lookup_value_def
      split: http_outcome.splits body.splits sum.splits)

lemma scale_delay_present:
  "map_of ds k = Some d \<Longrightarrow> scale_delay k ds = Inr (AList.update k (fmul d (fround (15 / 10))) ds)"
  by (simp add: scale_delay_def)

lemma btc_try_win_value:
  "map_of (request_delays s) ''btc'' = Some d0 \<Longrightarrow>
   (case fst (btc_try_win net a s) of Inl e \<Rightarrow> None | Inr x \<Rightarrow> x)
     = lookup_value (\<lambda>d. returning (btc_parse_win d a)) net"
  by (auto simp: btc_try_win_def lookup_value_def returning_def Let_def scale_delay_present
      split: http_outcome.splits body.splits sum.splits)

lemma eth_try_win_value:
  "map_of (request_delays s) ''eth'' = Some d0 \<Longrightarrow>
   (case fst (eth_try_win net a s) of Inl e \<Rightarrow> None | Inr x \<Rightarrow> x)
     = lookup_value eth_parse_win net"
  by (auto simp: eth_try_win_def lookup_value_def Let_def scale_delay_present
      split: http_outcome.splits body.splits sum.splits)

lemma get_btc_balance_v2_positive:
  assumes "fst (get_btc_balance_v2 T net a s) = Inr v"
  shows "fless (Fin 0) v
     = (\<not> T \<and> positive (lookup_value (\<lambda>d. returning (btc_parse_v2 d a)) net))"
proof (cases T)
  case True
  then show ?thesis using assms by (auto simp: fst_get_btc_balance_v2)
next
  case False
  then have "or_zero (except_Exception (btc_try_v2 net a)) = Inr v"
    using assms by (simp add: fst_get_btc_balance_v2)
  from or_zero_positive[OF this] False show ?thesis by (simp add: btc_try_v2_value)
qed

lemma get_eth_balance_v2_positive:
  assumes "fst (get_eth_balance_v2 T net a s) = Inr v"
  shows "fless (Fin 0) v = (\<not> T \<and> positive (lookup_value eth_parse_v2 net))"
proof (cases T)
  case True
  then show ?thesis using assms by (auto simp: fst_get_eth_balance_v2)
next
  case False
  then have "or_zero (except_Exception (eth_try_v2 net)) = Inr v"
    using assms by (simp add: fst_get_eth_balance_v2)
  from or_zero_positive[OF this] False show ?thesis by (simp add: eth_try_v2_value)
qed

lemma get_btc_balance_win_positive:
  assumes "fst (get_btc_balance_win T net a s) = Inr v"
    and "map_of (request_delays s) ''btc'' = Some d0"
  shows "fless (Fin 0) v
     = (\<not> T \<and> positive (lookup_value (\<lambda>d. returning (btc_parse_win d a)) net))"
proof (cases T)
  case True
  then show ?thesis using assms by (auto simp: fst_get_btc_balance_win)
next
  case False
  then have "or_zero (except_Exception (fst (btc_try_win net a (emit [Acquire] s)))) = Inr v"
    using assms by (simp add: fst_get_btc_balance_win)
  from or_zero_positive[OF this] False assms(2) show ?thesis
    by (simp add: btc_try_win_value[of "emit [Acquire] s" d0])
qed

lemma get_eth_balance_win_positive:
  assumes "fst (get_eth_balance_win T net a s) = Inr v"
    and "map_of (request_delays s) ''eth'' = Some d0"
  shows "fless (Fin 0) v = (\<not> T \<and> positive (lookup_value eth_parse_win net))"
proof (cases T)
  case True
  then show ?thesis using assms by (auto simp: fst_get_eth_balance_win)
next
  case False
  then have "or_zero (except_Exception (fst (eth_try_win net a (emit [Acquire] s)))) = Inr v"
    using assms by (simp add: fst_get_eth_balance_win)
  from or_zero_positive[OF this] False assms(2) show ?thesis
    by (simp add: eth_try_win_value[of "emit [Acquire] s" d0])
qed

lemma scale_delay_other:
  "scale_delay k ds = Inr ds' \<Longrightarrow> k' \<noteq> k \<Longrightarrow> map_of ds' k' = map_of ds k'"
  by (auto simp: scale_delay_def update_conv' split: option.splits)

lemma btc_try_win_frame:
  "k \<noteq> ''btc'' \<Longrightarrow>
   map_of (request_delays (snd (btc_try_win net a s))) k = map_of (request_delays s) k"
  by (auto simp: btc_try_win_def Let_def dest: scale_delay_other
      split: option.splits http_outcome.splits body.splits sum.splits)

lemma eth_try_win_frame:
  "k \<noteq> ''eth'' \<Longrightarrow>
   map_of (request_delays (snd (eth_try_win net a s))) k = map_of (request_delays s) k"
  by (auto simp: eth_try_win_def Let_def dest: scale_delay_other
      split: option.splits http_outcome.splits body.splits sum.splits)

lemma get_btc_balance_win_frame:
  "k \<noteq> ''btc'' \<Longrightarrow>
   map_of (request_delays (snd (get_btc_balance_win T net a s))) k = map_of (request_delays s) k"
  by (simp add: get_btc_balance_win_def split_beta btc_try_win_frame)

lemma get_eth_balance_win_frame:
  "k \<noteq> ''eth'' \<Longrightarrow>
   map_of (request_delays (snd (get_eth_balance_win T net a s))) k = map_of (request_delays s) k"
  by (simp add: get_eth_balance_win_def split_beta eth_try_win_frame)

lemma gather_into_InrD:
  "gather_into wallet r_btc r_eth = Inr w \<Longrightarrow>
   \<exists>b e. r_btc = Inr b \<and> r_eth = Inr e \<and> w = wallet\<lparr>btc_balance := b, eth_balance := e\<rparr>"
  by (auto simp: gather_into_def split: sum.splits)

lemma check_wallet_balances_has_balance:
  assumes "fst (check_wallet_balances T nb ne wallet0 s) = Inr wallet"
  shows "has_balance wallet = interesting_v2 T nb ne wallet0"
proof -
  define s1 where "s1 = snd (get_btc_balance_v2 T nb (btc_address wallet0) s)"
  have "gather_into wallet0 (fst (get_btc_balance_v2 T nb (btc_address wallet0) s))
          (fst (get_eth_balance_v2 T ne (eth_address wallet0) s1)) = Inr wallet"
    using assms by (simp add: check_wallet_balances_def split_beta s1_def)
  then obtain b e where b: "fst (get_btc_balance_v2 T nb (btc_address wallet0) s) = Inr b"
    and e: "fst (get_eth_balance_v2 T ne (eth_address wallet0) s1) = Inr e"
    and w: "wallet = wallet0\<lparr>btc_balance := b, eth_balance := e\<rparr>"
    by (blast dest: gather_into_InrD)
  show ?thesis
    using get_btc_balance_v2_positive[OF b] get_eth_balance_v2_positive[OF e]
    by (auto simp: has_balance_def interesting_v2_def w)
qed

lemma check_wallet_has_balance:
  assumes "fst (check_wallet T nb ne wallet0 s) = Inr wallet"
    and "map_of (request_delays s) ''btc'' = Some db"
    and "map_of (request_delays s) ''eth'' = Some de"
  shows "has_balance wallet = interesting_win T nb ne wallet0"
proof -
  define s1 where "s1 = snd (get_btc_balance_win T nb (btc_address wallet0) s)"
  have de1: "map_of (request_delays s1) ''eth'' = Some de"
    using get_btc_balance_win_frame[of "''eth''" T nb "btc_address wallet0" s] assms(3)
    by (simp add: s1_def)
  have "gather_into wallet0 (fst (get_btc_balance_win T nb (btc_address wallet0) s))
          (fst (get_eth_balance_win T ne (eth_address wallet0) s1)) = Inr wallet"
    using assms(1) by (simp add: check_wallet_def split_beta s1_def)
  then obtain b e where b: "fst (get_btc_balance_win T nb (btc_address wallet0) s) = Inr b"
    and e: "fst (get_eth_balance_win T ne (eth_address wallet0) s1) = Inr e"
    and w: "wallet = wallet0\<lparr>btc_balance := b, eth_balance := e\<rparr>"
    by (blast dest: gather_into_InrD)
  show ?thesis
    using get_btc_balance_win_positive[OF b assms(2)] get_eth_balance_win_positive[OF e de1]
    by (auto simp: has_balance_def interesting_win_def w)
qed

lemma new_events_append: "trace s' = trace s @ evs \<Longrightarrow> new_events s s' = evs"
  by (simp add: new_events_def)

lemma btc_try_win_trace:
  "\<exists>evs. trace (snd (btc_try_win net a s)) = trace s @ evs \<and> \<not> list_ex is_AppendFile evs"
  by (auto simp: btc_try_win_def Let_def
      split: option.splits http_outcome.splits body.splits sum.splits)

lemma eth_try_win_trace:
  "\<exists>evs. trace (snd (eth_try_win net a s)) = trace s @ evs \<and> \<not> list_ex is_AppendFile evs"
  by (auto simp: eth_try_win_def Let_def
      split: option.splits http_outcome.splits body.splits sum.splits)

lemma get_btc_balance_win_trace:
  "\<exists>evs. trace (snd (get_btc_balance_win T net a s)) = trace s @ evs
         \<and> \<not> list_ex is_AppendFile evs"
proof (cases T)
  case True
  then show ?thesis by (simp add: get_btc_balance_win_def)
next
  case False
  obtain evs where "trace (snd (btc_try_win net a (emit [Acquire] s))) = trace (emit [Acquire] s) @ evs"
    and "\<not> list_ex is_AppendFile evs"
    using btc_try_win_trace[of net a "emit [Acquire] s"] by blast
  then have "trace (snd (get_btc_balance_win T net a s)) = trace s @ (Acquire # evs @ [Release])
      \<and> \<not> list_ex is_AppendFile (Acquire # evs @ [Release])"
    using False by (simp add: get_btc_balance_win_def split_beta)
  then show ?thesis by blast
qed

lemma get_eth_balance_win_trace:
  "\<exists>evs. trace (snd (get_eth_balance_win T net a s)) = trace s @ evs
         \<and> \<not> list_ex is_AppendFile evs"
proof (cases T)
  case True
  then show ?thesis by (simp add: get_eth_balance_win_def)
next
  case False
  obtain evs where "trace (snd (eth_try_win net a (emit [Acquire] s))) = trace (emit [Acquire] s) @ evs"
    and "\<not> list_ex is_AppendFile evs"
    using eth_try_win_trace[of net a "emit [Acquire] s"] by blast
  then have "trace (snd (get_eth_balance_win T net a s)) = trace s @ (Acquire # evs @ [Release])
      \<and> \<not> list_ex is_AppendFile (Acquire # evs @ [Release])"
    using False by (simp add: get_eth_balance_win_def split_beta)
  then show ?thesis by blast
qed

lemma check_wallet_trace:
  "\<exists>evs. trace (snd (check_wallet T nb ne wallet s)) = trace s @ evs
         \<and> \<not> list_ex is_AppendFile evs"
proof -
  define s1 where "s1 = snd (get_btc_balance_win T nb (btc_address wallet) s)"
  obtain e1 where 1: "trace s1 = trace s @ e1" "\<not> list_ex is_AppendFile e1"
    using get_btc_balance_win_trace[of T nb "btc_address wallet" s] by (auto simp: s1_def)
  obtain e2 where 2: "trace (snd (get_eth_balance_win T ne (eth_address wallet) s1)) = trace s1 @ e2"
    "\<not> list_ex is_AppendFile e2"
    using get_eth_balance_win_trace[of T ne "eth_address wallet" s1] by auto
  have "trace (snd (check_wallet T nb ne wallet s)) = trace s @ (e1 @ e2)
      \<and> \<not> list_ex is_AppendFile (e1 @ e2)"
    using 1 2 by (simp add: check_wallet_def split_beta s1_def[symmetric])
  then show ?thesis by blast
qed

lemma check_wallet_balances_trace:
  "\<exists>evs. trace (snd (check_wallet_balances T nb ne wallet s)) = trace s @ evs
         \<and> \<not> list_ex is_AppendFile evs"
  by (simp add: snd_check_wallet_balances)

lemma scan_iteration_v2_saved:
  assumes gen: "generate_wallet_addresses derive (env_key env) = Inr wallet0"
    and chk: "fst (check_wallet_balances T (env_btc env) (env_eth env) wallet0 s) = Inr wallet"
  shows "list_ex is_AppendFile (new_events s (snd (scan_iteration_v2 T derive env s)))
     = (has_balance wallet \<and> \<not> T \<and> env_save env = None)"
proof -
  obtain s1 where c: "check_wallet_balances T (env_btc env) (env_eth env) wallet0 s = (Inr wallet, s1)"
    using chk by (cases "check_wallet_balances T (env_btc env) (env_eth env) wallet0 s") simp
  obtain e1 where e1: "trace s1 = trace s @ e1" "\<not> list_ex is_AppendFile e1"
    using check_wallet_balances_trace[of T "env_btc env" "env_eth env" wallet0 s] c by auto
  define s2 where "s2 = s1\<lparr>scan_count := scan_count s1 + 1\<rparr>"
  have t2: "trace s2 = trace s @ e1" by (simp add: s2_def e1)
  have "\<exists>evs. trace (snd (scan_iteration_v2 T derive env s)) = trace s @ evs
      \<and> list_ex is_AppendFile evs = (has_balance wallet \<and> \<not> T \<and> env_save env = None)"
    using gen c e1
    by (auto simp: scan_iteration_v2_def save_found_wallet_v2_def Let_def split: option.splits)
  then show ?thesis by (auto simp: new_events_append)
qed

lemma scan_iteration_win_saved:
  assumes gen: "generate_wallet_addresses derive (generate_secure_private_key T (env_key env) s)
      = Inr wallet0"
    and chk: "fst (check_wallet T (env_btc env) (env_eth env) wallet0 s) = Inr wallet"
  shows "list_ex is_AppendFile (new_events s (snd (scan_iteration_win T derive env s)))
     = (has_balance wallet \<and> \<not> T \<and> env_save env = None)"
proof -
  obtain s1 where c: "check_wallet T (env_btc env) (env_eth env) wallet0 s = (Inr wallet, s1)"
    using chk by (cases "check_wallet T (env_btc env) (env_eth env) wallet0 s") simp
  obtain e1 where e1: "trace s1 = trace s @ e1" "\<not> list_ex is_AppendFile e1"
    using check_wallet_trace[of T "env_btc env" "env_eth env" wallet0 s] c by auto
  have "\<exists>evs. trace (snd (scan_iteration_win T derive env s)) = trace s @ evs
      \<and> list_ex is_AppendFile evs = (has_balance wallet \<and> \<not> T \<and> env_save env = None)"
    using gen c e1
    by (auto simp: scan_iteration_win_def save_found_wallet_win_def Let_def display_results_win_def
        split: option.splits)
  then show ?thesis by (auto simp: new_events_append)
qed

section \<open>Throttling\<close>

lemma fround_three_tenths: "fround (3 / 10) = Fin (5404319552844595 / 18014398509481984)"
  by code_simp

lemma fmul_scale_grows:
  "2 powi (- 1074) \<le> d \<Longrightarrow> fless (Fin d) (fmul (Fin d) (Fin (3 / 2)))"
  using fround_grows[of d] by simp

lemma get_btc_balance_win_429:
  assumes "map_of (request_delays s) ''btc'' = Some d"
  shows "get_btc_balance_win False (Response 429 b) a s =
     (Inr (Fin 0),
      s\<lparr>trace := trace s @ [Acquire, Sleep d, HttpGet (btc_url a), Sleep (Fin 2), Release],
        request_delays := AList.update ''btc'' (fmul d (Fin (3 / 2))) (request_delays s)\<rparr>)"
  using assms
  by (simp add: get_btc_balance_win_def btc_try_win_def Let_def scale_delay_present
      fround_one_and_a_half emit_def)

lemma get_eth_balance_win_429:
  assumes "map_of (request_delays s) ''eth'' = Some d"
  shows "get_eth_balance_win False (Response 429 b) a s =
     (Inr (Fin 0),
      s\<lparr>trace := trace s @ [Acquire, Sleep d, HttpGet (eth_url a), Sleep (Fin 2), Release],
        request_delays := AList.update ''eth'' (fmul d (Fin (3 / 2))) (request_delays s)\<rparr>)"
  using assms
  by (simp add: get_eth_balance_win_def eth_try_win_def Let_def scale_delay_present
      fround_one_and_a_half emit_def)

lemma btc_try_win_not_throttled:
  "\<not> throttled net \<Longrightarrow> request_delays (snd (btc_try_win net a s)) = request_delays s"
  by (auto simp: btc_try_win_def throttled_def Let_def
      split: option.splits http_outcome.splits body.splits sum.splits)

lemma eth_try_win_not_throttled:
  "\<not> throttled net \<Longrightarrow> request_delays (snd (eth_try_win net a s)) = request_delays s"
  by (auto simp: eth_try_win_def throttled_def Let_def
      split: option.splits http_outcome.splits body.splits sum.splits)

lemma get_btc_balance_win_not_throttled:
  "\<not> throttled net \<Longrightarrow> request_delays (snd (get_btc_balance_win T net a s)) = request_delays s"
  by (simp add: get_btc_balance_win_def split_beta btc_try_win_not_throttled)

lemma get_eth_balance_win_not_throttled:
  "\<not> throttled net \<Longrightarrow> request_delays (snd (get_eth_balance_win T net a s)) = request_delays s"
  by (simp add: get_eth_balance_win_def split_beta eth_try_win_not_throttled)

lemma throttled_btc_delay:
  "map_of (request_delays s) ''btc'' = Some d \<Longrightarrow>
   map_of (request_delays (throttled_btc n s)) ''btc''
     = Some (((\<lambda>x. fmul x (Fin (3 / 2))) ^^ n) d)"
proof (induction n arbitrary: s d)
  case 0
  then show ?case by simp
next
  case (Suc n)
  have "map_of (request_delays (snd (get_btc_balance_win False (Response 429 (Body JNull)) ''addr'' s)))
      ''btc'' = Some (fmul d (Fin (3 / 2)))"
    using get_btc_balance_win_429[OF Suc.prems, of "Body JNull" "''addr''"]
    by (simp add: update_conv')
  from Suc.IH[OF this] show ?case by (simp only: throttled_btc.simps funpow_Suc_right o_apply)
qed

lemma init_win_delays:
  "request_delays (init_win n)
     = [(''btc'', Fin (1 / 2)), (''eth'', Fin (5404319552844595 / 18014398509481984))]"
  by (simp add: init_win_def fround_half fround_three_tenths)

section \<open>Normalisation and the semaphore\<close>

lemma int_truediv_multiple:
  assumes "\<bar>k\<bar> \<le> 2 ^ 53" and "0 < d"
  shows "int_truediv (k * d) d = Inr (Fin (of_int k))"
proof -
  have "(of_int (k * d) :: rat) / of_int d = of_int k" using assms(2) by simp
  then show ?thesis using assms(2) fround_int[OF assms(1)] by (simp add: int_truediv_def)
qed

lemma int_truediv_error:
  assumes raw: "0 < raw" "raw \<le> 2 ^ 53" and d: "0 < d" "d \<le> 2 ^ 60"
  shows "\<exists>y. int_truediv raw d = Inr (Fin y)
           \<and> \<bar>y - of_int raw / of_int d\<bar> \<le> of_int raw / of_int d / 2 ^ 53"
proof -
  define x where "x = (of_int raw :: rat) / of_int d"
  have x: "0 < x" using raw d by (simp add: x_def)
  have dr: "(of_int d :: rat) \<le> 2 ^ 60"
  proof -
    have "(of_int d :: rat) \<le> of_int (2 ^ 60)" using d(2) by (simp only: of_int_le_iff)
    then show ?thesis by simp
  qed
  have "(2::rat) powi (- 60) = 1 / 2 ^ 60" by (simp add: power_int_minus)
  also have "\<dots> \<le> 1 / of_int d" using dr d(1) by (intro frac_le) simp_all
  also have "\<dots> \<le> x" unfolding x_def using raw(1) d(1) by (intro divide_right_mono) simp_all
  finally have "- 60 \<le> ilog2 x" by (rule ilog2_ge[OF x])
  then have L: "- 1022 \<le> ilog2 x" by simp
  have err: "\<bar>round_pos x - x\<bar> \<le> x / 2 ^ 53" by (rule round_pos_err[OF x L])
  have "(1::rat) \<le> of_int d" using d(1) by simp
  then have "(of_int raw :: rat) / of_int d \<le> of_int raw / 1"
    using raw(1) by (intro frac_le) simp_all
  then have "x \<le> of_int raw" by (simp add: x_def)
  also have "(of_int raw :: rat) \<le> of_int (2 ^ 53)" using raw(2) by (simp only: of_int_le_iff)
  finally have x53: "x \<le> 2 ^ 53" by simp
  have "round_pos x \<le> x + x / 2 ^ 53" using err by linarith
  also have "\<dots> \<le> 2 * x" using x by simp
  also have "\<dots> \<le> 2 * 2 ^ 53" using x53 by simp
  also have "\<dots> < (2::rat) ^ 1024" by simp
  finally have "round_pos x < 2 ^ 1024" .
  then have "fround x = Fin (round_pos x)" using x by (simp add: fround_def Let_def)
  then have "int_truediv raw d = Inr (Fin (round_pos x))"
    using d(1) by (simp add: int_truediv_def x_def)
  with err show ?thesis unfolding x_def by blast
qed

lemma fround_one_satoshi:
  "fround (1 / 100000000) = Fin (3022314549036573 / 302231454903657293676544)"
  by code_simp

lemma int_of_str_one_ether: "int_of_str ''1000000000000000000'' = Some 1000000000000000000"
  by code_simp

lemma count_update:
  "i < length xs \<Longrightarrow>
   length (filter P (xs[i := y])) + (if P (xs ! i) then 1 else 0)
     = length (filter P xs) + (if P y then 1 else 0)"
proof (induction xs arbitrary: i)
  case Nil
  then show ?case by simp
next
  case (Cons x xs)
  then show ?case by (cases i) auto
qed

lemma step_invariant:
  assumes "step T a p = Some p'"
    and "permits p + int (in_flight p) = n" and "0 \<le> permits p"
  shows "permits p' + int (in_flight p') = n \<and> 0 \<le> permits p'"
proof (cases a)
  case Spawn
  then show ?thesis using assms by (auto simp: in_flight_def)
next
  case (Enter i)
  then have i: "i < length (tasks p)" "tasks p ! i = Called"
    using assms(1) by (auto split: if_splits)
  show ?thesis
  proof (cases T)
    case True
    then have "p' = p\<lparr>tasks := (tasks p)[i := Finished]\<rparr>" using assms(1) Enter i by simp
    then show ?thesis
      using assms(2,3) count_update[OF i(1), of "\<lambda>t. t = InFlight" Finished] i(2)
      by (simp add: in_flight_def)
  next
    case False
    then have "0 < permits p"
      and "p' = p\<lparr>permits := permits p - 1, tasks := (tasks p)[i := InFlight]\<rparr>"
      using assms(1) Enter i by (auto split: if_splits)
    then show ?thesis
      using assms(2,3) count_update[OF i(1), of "\<lambda>t. t = InFlight" InFlight] i(2)
      by (simp add: in_flight_def)
  qed
next
  case (Leave i)
  then have i: "i < length (tasks p)" "tasks p ! i = InFlight"
    and "p' = p\<lparr>permits := permits p + 1, tasks := (tasks p)[i := Finished]\<rparr>"
    using assms(1) by (auto split: if_splits)
  then show ?thesis
    using assms(2,3) count_update[OF i(1), of "\<lambda>t. t = InFlight" Finished]
    by (simp add: in_flight_def)
qed

lemma run_invariant:
  "run T as p = Some p' \<Longrightarrow> permits p + int (in_flight p) = n \<Longrightarrow> 0 \<le> permits p \<Longrightarrow>
   permits p' + int (in_flight p') = n \<and> 0 \<le> permits p'"
proof (induction as arbitrary: p)
  case Nil
  then show ?case by simp
next
  case (Cons a as)
  then obtain q where q: "step T a p = Some q" "run T as q = Some p'"
    by (auto split: option.splits)
  from step_invariant[OF q(1) Cons.prems(2,3)] Cons.IH[OF q(2)] show ?case by blast
qed

section \<open>An example pass\<close>

lemma example_generate:
  "generate_wallet_addresses example_derive (env_key example_env) = Inr example_wallet"
  by (simp add: generate_wallet_addresses_def example_derive_def example_env_def example_wallet_def)

lemma example_generate_win:
  "generate_wallet_addresses example_derive
     (generate_secure_private_key False (env_key example_env) w) = Inr example_wallet"
  by (simp add: generate_wallet_addresses_def example_derive_def example_env_def example_wallet_def
      generate_secure_private_key_def)

lemma int_truediv_five: "int_truediv 500000000 100000000 = Inr (Fin 5)"
  using int_truediv_multiple[of 5 100000000] by simp

lemma example_not_interrupted:
  "\<not> interrupted (env_btc example_env)" "\<not> interrupted (env_eth example_env)"
  by (simp_all add: interrupted_def example_env_def)

lemma example_interesting_v2:
  "interesting_v2 False (env_btc example_env) (env_eth example_env) example_wallet"
  by (simp add: interesting_v2_def example_env_def example_wallet_def lookup_value_def
      positive_def btc_parse_v2_def bind_exn_def returning_def int_truediv_five)

lemma example_interesting_win:
  "interesting_win False (env_btc example_env) (env_eth example_env) example_wallet"
  by (simp add: interesting_win_def example_env_def example_wallet_def lookup_value_def
      positive_def btc_parse_win_def bind_exn_def returning_def int_truediv_five)

lemma init_win_btc: "map_of (request_delays (init_win n)) ''btc'' = Some (Fin (1 / 2))"
  by (simp add: init_win_delays)

lemma init_win_eth:
  "map_of (request_delays (init_win n)) ''eth''
     = Some (Fin (5404319552844595 / 18014398509481984))"
  by (simp add: init_win_delays)

section \<open>Delays stay valid; requests are made under a permit\<close>

lemma valid_delay_scaled: "valid_delay d \<Longrightarrow> valid_delay (fmul d (Fin (3 / 2)))"
proof (cases d)
  case (Fin x)
  assume "valid_delay d"
  then have x: "2 powi (- 1074) \<le> x" using Fin by (simp add: valid_delay_def)
  have "fless (Fin x) (fmul (Fin x) (Fin (3 / 2)))" by (rule fmul_scale_grows[OF x])
  then show ?thesis using Fin x
    by (cases "fmul (Fin x) (Fin (3 / 2))") (auto simp: valid_delay_def)
qed (simp_all add: valid_delay_def)

lemma list_all_update:
  "list_all (\<lambda>kd. P (snd kd)) ds \<Longrightarrow> P v \<Longrightarrow> list_all (\<lambda>kd. P (snd kd)) (AList.update k v ds)"
  by (induction ds) auto

lemma list_all_map_of:
  "list_all (\<lambda>kd. P (snd kd)) ds \<Longrightarrow> map_of ds k = Some v \<Longrightarrow> P v"
  by (induction ds) (auto split: if_splits)

lemma scale_delay_valid:
  "list_all (\<lambda>kd. valid_delay (snd kd)) ds \<Longrightarrow> scale_delay k ds = Inr ds' \<Longrightarrow>
   list_all (\<lambda>kd. valid_delay (snd kd)) ds'"
  by (auto simp: scale_delay_def fround_one_and_a_half split: option.splits
      intro!: list_all_update valid_delay_scaled dest: list_all_map_of)

lemma btc_try_win_valid:
  "valid_delays s \<Longrightarrow> valid_delays (snd (btc_try_win net a s))"
  by (auto simp: valid_delays_def btc_try_win_def Let_def dest: scale_delay_valid
      split: option.splits http_outcome.splits body.splits sum.splits)

lemma eth_try_win_valid:
  "valid_delays s \<Longrightarrow> valid_delays (snd (eth_try_win net a s))"
  by (auto simp: valid_delays_def eth_try_win_def Let_def dest: scale_delay_valid
      split: option.splits http_outcome.splits body.splits sum.splits)

lemma valid_delays_emit [simp]: "valid_delays (emit evs s) = valid_delays s"
  by (simp add: valid_delays_def)

lemma get_btc_balance_win_valid:
  "valid_delays s \<Longrightarrow> valid_delays (snd (get_btc_balance_win T net a s))"
  by (simp add: get_btc_balance_win_def split_beta btc_try_win_valid)

lemma get_eth_balance_win_valid:
  "valid_delays s \<Longrightarrow> valid_delays (snd (get_eth_balance_win T net a s))"
  by (simp add: get_eth_balance_win_def split_beta eth_try_win_valid)

lemma check_wallet_valid:
  "valid_delays s \<Longrightarrow> valid_delays (snd (check_wallet T nb ne wallet s))"
  by (simp add: check_wallet_def split_beta get_btc_balance_win_valid get_eth_balance_win_valid)

lemma init_win_valid: "valid_delays (init_win n)"
  by (simp add: valid_delays_def init_win_delays valid_delay_def power_int_minus)

lemma btc_try_win_events:
  "\<exists>evs. trace (snd (btc_try_win net a s)) = trace s @ evs
         \<and> list_all (\<lambda>x. x \<noteq> Acquire \<and> x \<noteq> Release) evs"
  by (auto simp: btc_try_win_def Let_def
      split: option.splits http_outcome.splits body.splits sum.splits)

lemma eth_try_win_events:
  "\<exists>evs. trace (snd (eth_try_win net a s)) = trace s @ evs
         \<and> list_all (\<lambda>x. x \<noteq> Acquire \<and> x \<noteq> Release) evs"
  by (auto simp: eth_try_win_def Let_def
      split: option.splits http_outcome.splits body.splits sum.splits)

lemma under_permit_v2_btc:
  "under_permit (new_events s (snd (get_btc_balance_v2 T net a s)))"
  by (simp add: new_events_def snd_get_btc_balance_v2)

lemma under_permit_v2_eth:
  "under_permit (new_events s (snd (get_eth_balance_v2 T net a s)))"
  by (simp add: new_events_def snd_get_eth_balance_v2)

lemma under_permit_win_btc:
  "under_permit (new_events s (snd (get_btc_balance_win T net a s)))"
proof (cases T)
  case True
  then show ?thesis by (simp add: new_events_def get_btc_balance_win_def)
next
  case False
  obtain evs where "trace (snd (btc_try_win net a (emit [Acquire] s))) = trace (emit [Acquire] s) @ evs"
    and "list_all (\<lambda>x. x \<noteq> Acquire \<and> x \<noteq> Release) evs"
    using btc_try_win_events[of net a "emit [Acquire] s"] by blast
  then show ?thesis
    using False by (simp add: new_events_def get_btc_balance_win_def split_beta)
qed

lemma under_permit_win_eth:
  "under_permit (new_events s (snd (get_eth_balance_win T net a s)))"
proof (cases T)
  case True
  then show ?thesis by (simp add: new_events_def get_eth_balance_win_def)
next
  case False
  obtain evs where "trace (snd (eth_try_win net a (emit [Acquire] s))) = trace (emit [Acquire] s) @ evs"
    and "list_all (\<lambda>x. x \<noteq> Acquire \<and> x \<noteq> Release) evs"
    using eth_try_win_events[of net a "emit [Acquire] s"] by blast
  then show ?thesis
    using False by (simp add: new_events_def get_eth_balance_win_def split_beta)
qed

lemma example_btc_v2:
  "fst (get_btc_balance_v2 False (env_btc example_env) (btc_address example_wallet) s) = Inr (Fin 5)"
  by (simp add: get_btc_balance_v2_def btc_try_v2_def btc_parse_v2_def bind_exn_def returning_def
      example_env_def example_wallet_def int_truediv_five)

lemma example_eth_v2:
  "fst (get_eth_balance_v2 False (env_eth example_env) (eth_address example_wallet) s) = Inr (Fin 0)"
  by (simp add: get_eth_balance_v2_def eth_try_v2_def example_env_def)

lemma example_btc_win:
  "fst (get_btc_balance_win False (env_btc example_env) (btc_address example_wallet) (init_win 15))
     = Inr (Fin 5)"
  by (simp add: get_btc_balance_win_def btc_try_win_def btc_parse_win_def bind_exn_def
      returning_def example_env_def example_wallet_def int_truediv_five init_win_delays
      split_beta Let_def)

lemma example_eth_win:
  "fst (get_eth_balance_win False (env_eth example_env) (eth_address example_wallet) s) = Inr (Fin 0)"
proof -
  have "lookup_failed eth_parse_win (env_eth example_env)"
    by (simp add: lookup_failed_def example_env_def)
  from eth_try_win_failed[OF this example_not_interrupted(2)] show ?thesis
    by (simp add: fst_get_eth_balance_win)
qed

section \<open>The claims\<close>

text \<open>
  Claim C1. For every wallet, every scanner state and every pair of exchanges that is not
  interrupted (any status, any body, any transport or decoding error, on one chain or on
  both), \<^verbatim>\<open>check_wallet_balances\<close> of \<^verbatim>\<open>cws_v2.py\<close> and \<^verbatim>\<open>check_wallet\<close> of \<^verbatim>\<open>cws_win.py\<close>
  return and do not raise, and what they return is the wallet with both balance fields
  set: \<open>btc_balance\<close> is the float that the Bitcoin balance function returned for the
  Bitcoin address, and \<open>eth_balance\<close> the float that the Ethereum balance function
  returned for the Ethereum address.
\<close>

theorem check_wallet_returns_record:
  assumes "\<not> interrupted net_btc" and "\<not> interrupted net_eth"
  shows "(\<exists>b e. fst (get_btc_balance_v2 T net_btc (btc_address wallet) s) = Inr b
           \<and> fst (get_eth_balance_v2 T net_eth (eth_address wallet)
                   (snd (get_btc_balance_v2 T net_btc (btc_address wallet) s))) = Inr e
           \<and> fst (check_wallet_balances T net_btc net_eth wallet s)
               = Inr (wallet\<lparr>btc_balance := b, eth_balance := e\<rparr>))
       \<and> (\<exists>b e. fst (get_btc_balance_win T net_btc (btc_address wallet) w) = Inr b
           \<and> fst (get_eth_balance_win T net_eth (eth_address wallet)
                   (snd (get_btc_balance_win T net_btc (btc_address wallet) w))) = Inr e
           \<and> fst (check_wallet T net_btc net_eth wallet w)
               = Inr (wallet\<lparr>btc_balance := b, eth_balance := e\<rparr>))"
  using check_wallet_balances_returns[OF assms, of T wallet s]
    check_wallet_returns[OF assms, of T wallet w]
  by blast

text \<open>
  C1 at the example pass, where the Bitcoin lookup reports 5.0 and the Ethereum lookup
  fails with status 429: both scripts return the wallet with the balances 5.0 and 0.0.
\<close>

theorem check_wallet_returns_record_witness:
  "\<not> interrupted (env_btc example_env) \<and> \<not> interrupted (env_eth example_env)
   \<and> fst (check_wallet_balances False (env_btc example_env) (env_eth example_env)
            example_wallet init_v2)
       = Inr (example_wallet\<lparr>btc_balance := Fin 5, eth_balance := Fin 0\<rparr>)
   \<and> fst (check_wallet False (env_btc example_env) (env_eth example_env)
            example_wallet (init_win 15))
       = Inr (example_wallet\<lparr>btc_balance := Fin 5, eth_balance := Fin 0\<rparr>)"
proof -
  note t = check_wallet_returns_record[OF example_not_interrupted,
      where T = False and wallet = example_wallet and s = init_v2 and w = "init_win 15"]
  from t obtain b e where v2:
    "fst (get_btc_balance_v2 False (env_btc example_env) (btc_address example_wallet) init_v2)
       = Inr b"
    "fst (get_eth_balance_v2 False (env_eth example_env) (eth_address example_wallet)
       (snd (get_btc_balance_v2 False (env_btc example_env) (btc_address example_wallet) init_v2)))
       = Inr e"
    "fst (check_wallet_balances False (env_btc example_env) (env_eth example_env)
            example_wallet init_v2)
       = Inr (example_wallet\<lparr>btc_balance := b, eth_balance := e\<rparr>)"
    by blast
  from t obtain b' e' where win:
    "fst (get_btc_balance_win False (env_btc example_env) (btc_address example_wallet)
       (init_win 15)) = Inr b'"
    "fst (get_eth_balance_win False (env_eth example_env) (eth_address example_wallet)
       (snd (get_btc_balance_win False (env_btc example_env) (btc_address example_wallet)
          (init_win 15)))) = Inr e'"
    "fst (check_wallet False (env_btc example_env) (env_eth example_env)
            example_wallet (init_win 15))
       = Inr (example_wallet\<lparr>btc_balance := b', eth_balance := e'\<rparr>)"
    by blast
  have "b = Fin 5" using v2(1) by (simp add: example_btc_v2)
  moreover have "e = Fin 0" using v2(2) by (simp add: example_eth_v2)
  moreover have "b' = Fin 5" using win(1) by (simp add: example_btc_win)
  moreover have "e' = Fin 0" using win(2) by (simp add: example_eth_win)
  ultimately show ?thesis using v2(3) win(3) example_not_interrupted by simp
qed

text \<open>
  Claim C2 has every mismatch between the body and the expected schema yield a balance of
  zero. The code checks the body only through the exceptions of reading it: where the
  service documents an integer and the body holds the boolean \<^verbatim>\<open>true\<close>, both Bitcoin
  balance functions divide it like the integer 1 and return the float \<^verbatim>\<open>1e-08\<close>.
\<close>

theorem boolean_balance_is_returned:
  "\<not> interrupted (Response 200 (Body (JObj [(''1A'', JObj [(''final_balance'', JBool True)])])))
   \<and> fst (get_btc_balance_v2 False
            (Response 200 (Body (JObj [(''1A'', JObj [(''final_balance'', JBool True)])])))
            ''1A'' init_v2)
       = Inr (Fin (3022314549036573 / 302231454903657293676544))
   \<and> fst (get_btc_balance_win False
            (Response 200 (Body (JObj [(''1A'', JObj [(''final_balance'', JBool True)])])))
            ''1A'' (init_win 15))
       = Inr (Fin (3022314549036573 / 302231454903657293676544))
   \<and> Fin (3022314549036573 / 302231454903657293676544) \<noteq> Fin 0"
  by (simp add: interrupted_def get_btc_balance_v2_def btc_try_v2_def btc_parse_v2_def
      get_btc_balance_win_def btc_try_win_def btc_parse_win_def bind_exn_def returning_def
      int_truediv_def fround_one_satoshi init_win_delays split_beta Let_def)

text \<open>
  Claim C2, as the code has it. For every address and every exchange that is not
  interrupted, each of the four balance functions returns a float and raises nothing; and
  when the lookup failed (the transport raised, the status is not 200, the body could not
  be decoded, or reading the decoded body raised) the float is \<open>0.0\<close>.
\<close>

theorem balance_fetch_total:
  assumes "\<not> interrupted net"
  shows "(\<exists>v. fst (get_btc_balance_v2 T net a s) = Inr v)
       \<and> (\<exists>v. fst (get_eth_balance_v2 T net a s) = Inr v)
       \<and> (\<exists>v. fst (get_btc_balance_win T net a w) = Inr v)
       \<and> (\<exists>v. fst (get_eth_balance_win T net a w) = Inr v)
       \<and> (lookup_failed (\<lambda>d. returning (btc_parse_v2 d a)) net
            \<longrightarrow> fst (get_btc_balance_v2 T net a s) = Inr (Fin 0))
       \<and> (lookup_failed eth_parse_v2 net
            \<longrightarrow> fst (get_eth_balance_v2 T net a s) = Inr (Fin 0))
       \<and> (lookup_failed (\<lambda>d. returning (btc_parse_win d a)) net
            \<longrightarrow> fst (get_btc_balance_win T net a w) = Inr (Fin 0))
       \<and> (lookup_failed eth_parse_win net
            \<longrightarrow> fst (get_eth_balance_win T net a w) = Inr (Fin 0))"
proof -
  have 1: "\<exists>v. fst (get_btc_balance_v2 T net a s) = Inr v"
    by (rule get_btc_balance_v2_returns[OF assms])
  have 2: "\<exists>v. fst (get_eth_balance_v2 T net a s) = Inr v"
    by (rule get_eth_balance_v2_returns[OF assms])
  have 3: "\<exists>v. fst (get_btc_balance_win T net a w) = Inr v"
    by (rule get_btc_balance_win_returns[OF assms])
  have 4: "\<exists>v. fst (get_eth_balance_win T net a w) = Inr v"
    by (rule get_eth_balance_win_returns[OF assms])
  have 5: "lookup_failed (\<lambda>d. returning (btc_parse_v2 d a)) net
            \<longrightarrow> fst (get_btc_balance_v2 T net a s) = Inr (Fin 0)"
    using btc_try_v2_failed[OF _ assms] by (simp add: fst_get_btc_balance_v2)
  have 6: "lookup_failed eth_parse_v2 net
            \<longrightarrow> fst (get_eth_balance_v2 T net a s) = Inr (Fin 0)"
    using eth_try_v2_failed[OF _ assms] by (simp add: fst_get_eth_balance_v2)
  have 7: "lookup_failed (\<lambda>d. returning (btc_parse_win d a)) net
            \<longrightarrow> fst (get_btc_balance_win T net a w) = Inr (Fin 0)"
    using btc_try_win_failed[OF _ assms, of a "emit [Acquire] w"]
    by (simp add: fst_get_btc_balance_win)
  have 8: "lookup_failed eth_parse_win net
            \<longrightarrow> fst (get_eth_balance_win T net a w) = Inr (Fin 0)"
    using eth_try_win_failed[OF _ assms, of a "emit [Acquire] w"]
    by (simp add: fst_get_eth_balance_win)
  from 1 2 3 4 5 6 7 8 show ?thesis by blast
qed

text \<open>
  C2 at an answer with status 200 whose body is a JSON array, which none of the four
  functions can read.
\<close>

theorem balance_fetch_total_witness:
  "\<not> interrupted (Response 200 (Body (JArr [])))
   \<and> lookup_failed (\<lambda>d. returning (btc_parse_v2 d ''1A'')) (Response 200 (Body (JArr [])))
   \<and> lookup_failed eth_parse_v2 (Response 200 (Body (JArr [])))
   \<and> lookup_failed (\<lambda>d. returning (btc_parse_win d ''1A'')) (Response 200 (Body (JArr [])))
   \<and> lookup_failed eth_parse_win (Response 200 (Body (JArr [])))
   \<and> fst (get_btc_balance_v2 False (Response 200 (Body (JArr []))) ''1A'' init_v2) = Inr (Fin 0)
   \<and> fst (get_eth_balance_v2 False (Response 200 (Body (JArr []))) ''1A'' init_v2) = Inr (Fin 0)
   \<and> fst (get_btc_balance_win False (Response 200 (Body (JArr []))) ''1A'' (init_win 15)) = Inr (Fin 0)
   \<and> fst (get_eth_balance_win False (Response 200 (Body (JArr []))) ''1A'' (init_win 15)) = Inr (Fin 0)"
proof -
  have 1: "\<not> interrupted (Response 200 (Body (JArr [])))" by (simp add: interrupted_def)
  have 2: "lookup_failed (\<lambda>d. returning (btc_parse_v2 d ''1A'')) (Response 200 (Body (JArr [])))"
    by (simp add: lookup_failed_def btc_parse_v2_def bind_exn_def returning_def)
  have 3: "lookup_failed eth_parse_v2 (Response 200 (Body (JArr [])))"
    by (simp add: lookup_failed_def eth_parse_v2_def bind_exn_def)
  have 4: "lookup_failed (\<lambda>d. returning (btc_parse_win d ''1A'')) (Response 200 (Body (JArr [])))"
    by (simp add: lookup_failed_def btc_parse_win_def bind_exn_def returning_def)
  have 5: "lookup_failed eth_parse_win (Response 200 (Body (JArr [])))"
    by (simp add: lookup_failed_def eth_parse_win_def bind_exn_def)
  show ?thesis
    using 1 2 3 4 5
      balance_fetch_total[OF 1, of False "''1A''" init_v2 "init_win 15"]
    by blast
qed

text \<open>
  Claim C3. Whatever the number of overlapping lookups and however the scheduler has
  interleaved them so far, the number of lookups that are inside
  \<^verbatim>\<open>async with self.semaphore\<close> does not exceed \<^verbatim>\<open>max_concurrent_requests\<close>; and each of the
  four balance functions does everything it does to the outside, its request included,
  between acquiring the permit and releasing it.
\<close>

theorem semaphore_bounds_in_flight:
  assumes "Semaphore max_concurrent_requests = Inr p0" and "run T schedule p0 = Some p"
  shows "int (in_flight p) \<le> max_concurrent_requests
       \<and> under_permit (new_events s (snd (get_btc_balance_v2 T net a s)))
       \<and> under_permit (new_events s (snd (get_eth_balance_v2 T net a s)))
       \<and> under_permit (new_events w (snd (get_btc_balance_win T net a w)))
       \<and> under_permit (new_events w (snd (get_eth_balance_win T net a w)))"
proof -
  have p0: "p0 = \<lparr>permits = max_concurrent_requests, tasks = []\<rparr>" "0 \<le> max_concurrent_requests"
    using assms(1) by (auto simp: Semaphore_def split: if_splits)
  then have "permits p0 + int (in_flight p0) = max_concurrent_requests" "0 \<le> permits p0"
    by (simp_all add: in_flight_def)
  from run_invariant[OF assms(2) this] have "int (in_flight p) \<le> max_concurrent_requests"
    by linarith
  then show ?thesis
    using under_permit_v2_btc[of s T net a] under_permit_v2_eth[of s T net a]
      under_permit_win_btc[of w T net a] under_permit_win_eth[of w T net a]
    by blast
qed

text \<open>
  C3 with a ceiling of two and three lookups: two are admitted, and the third cannot enter
  while they hold the permits; and the events of one Bitcoin lookup.
\<close>

theorem semaphore_bounds_in_flight_witness:
  "Semaphore 2 = Inr \<lparr>permits = 2, tasks = []\<rparr>
   \<and> run False [Spawn, Spawn, Spawn, Enter 0, Enter 1] \<lparr>permits = 2, tasks = []\<rparr>
       = Some \<lparr>permits = 0, tasks = [InFlight, InFlight, Called]\<rparr>
   \<and> run False [Spawn, Spawn, Spawn, Enter 0, Enter 1, Enter 2] \<lparr>permits = 2, tasks = []\<rparr>
       = None
   \<and> int (in_flight \<lparr>permits = 0, tasks = [InFlight, InFlight, Called]\<rparr>) \<le> 2
   \<and> new_events init_v2 (snd (get_btc_balance_v2 False (Response 200 (Body JNull)) ''1A'' init_v2))
       = [Acquire, HttpGet (btc_url ''1A''), Release]
   \<and> under_permit
        (new_events init_v2 (snd (get_btc_balance_v2 False (Response 200 (Body JNull)) ''1A'' init_v2)))"
proof -
  have 1: "Semaphore 2 = Inr \<lparr>permits = 2, tasks = []\<rparr>" by (simp add: Semaphore_def)
  have 2: "run False [Spawn, Spawn, Spawn, Enter 0, Enter 1] \<lparr>permits = 2, tasks = []\<rparr>
       = Some \<lparr>permits = 0, tasks = [InFlight, InFlight, Called]\<rparr>" by simp
  have 3: "run False [Spawn, Spawn, Spawn, Enter 0, Enter 1, Enter 2] \<lparr>permits = 2, tasks = []\<rparr>
       = None" by simp
  have 4: "new_events init_v2
       (snd (get_btc_balance_v2 False (Response 200 (Body JNull)) ''1A'' init_v2))
       = [Acquire, HttpGet (btc_url ''1A''), Release]"
    by (simp add: new_events_def snd_get_btc_balance_v2)
  show ?thesis
    using 1 2 3 4 semaphore_bounds_in_flight[OF 1 2, where s = init_v2
        and net = "Response 200 (Body JNull)" and a = "''1A''" and w = "init_win 15"]
    by blast
qed

text \<open>
  Claim C4. In test mode each of the four balance functions returns \<open>0.0\<close> for every
  address, whatever the network would have answered, and leaves the scanner as it was: the
  trace gains no event, so no request is made. The same holds for checking a wallet.
\<close>

theorem test_mode_no_io:
  "get_btc_balance_v2 True net a s = (Inr (Fin 0), s)
   \<and> get_eth_balance_v2 True net a s = (Inr (Fin 0), s)
   \<and> get_btc_balance_win True net a w = (Inr (Fin 0), w)
   \<and> get_eth_balance_win True net a w = (Inr (Fin 0), w)
   \<and> check_wallet_balances True net net' wallet s
       = (Inr (wallet\<lparr>btc_balance := Fin 0, eth_balance := Fin 0\<rparr>), s)
   \<and> check_wallet True net net' wallet w
       = (Inr (wallet\<lparr>btc_balance := Fin 0, eth_balance := Fin 0\<rparr>), w)"
  by (simp add: get_btc_balance_v2_def get_eth_balance_v2_def get_btc_balance_win_def
      get_eth_balance_win_def check_wallet_balances_def check_wallet_def gather_into_def)

text \<open>
  C4 at two concrete calls.
\<close>

theorem test_mode_no_io_witness:
  "get_btc_balance_v2 True (Response 200 (Body JNull)) ''1A'' init_v2 = (Inr (Fin 0), init_v2)
   \<and> get_eth_balance_win True (GetRaises ClientError) ''0xB'' (init_win 15)
       = (Inr (Fin 0), init_win 15)
   \<and> trace (snd (get_eth_balance_win True (GetRaises ClientError) ''0xB'' (init_win 15))) = []"
  using test_mode_no_io[of "Response 200 (Body JNull)" "''1A''" init_v2 "init_win 15"]
    test_mode_no_io[of "GetRaises ClientError" "''0xB''" init_v2 "init_win 15"]
  by (simp add: init_win_def)

text \<open>
  Claim C5 names an upper bound for the adaptive delay (ten seconds, for example).
  \<^verbatim>\<open>cws_win.py\<close> has none: after eight Bitcoin lookups answered with 429 the delay of that
  chain is 12.814453125 seconds.
\<close>

theorem delay_exceeds_ten_seconds:
  "map_of (request_delays (throttled_btc 8 (init_win 15))) ''btc'' = Some (Fin (6561 / 512))
   \<and> fless (Fin 10) (Fin (6561 / 512))"
proof -
  have "map_of (request_delays (init_win 15)) ''btc'' = Some (Fin (1 / 2))"
    by (simp add: init_win_delays)
  from throttled_btc_delay[OF this, of 8] show ?thesis
    by (simp only: scaled_half[of 8, simplified]) simp
qed

text \<open>
  Claim C5, as the code has it. In \<^verbatim>\<open>cws_win.py\<close> a lookup answered with status 429 returns
  \<open>0.0\<close>, makes exactly one request (it is not repeated within the call), and replaces the
  delay of its chain by the float product of that delay and 1.5, whatever its size; a
  lookup with any other outcome leaves the delays as they were.
\<close>

theorem throttle_scales_delay_unbounded:
  assumes "map_of (request_delays w) ''btc'' = Some db"
    and "map_of (request_delays w) ''eth'' = Some de"
  shows "fst (get_btc_balance_win False (Response 429 b) a w) = Inr (Fin 0)
       \<and> new_events w (snd (get_btc_balance_win False (Response 429 b) a w))
           = [Acquire, Sleep db, HttpGet (btc_url a), Sleep (Fin 2), Release]
       \<and> request_delays (snd (get_btc_balance_win False (Response 429 b) a w))
           = AList.update ''btc'' (fmul db (Fin (3 / 2))) (request_delays w)
       \<and> fst (get_eth_balance_win False (Response 429 b) a w) = Inr (Fin 0)
       \<and> new_events w (snd (get_eth_balance_win False (Response 429 b) a w))
           = [Acquire, Sleep de, HttpGet (eth_url a), Sleep (Fin 2), Release]
       \<and> request_delays (snd (get_eth_balance_win False (Response 429 b) a w))
           = AList.update ''eth'' (fmul de (Fin (3 / 2))) (request_delays w)
       \<and> (\<not> throttled net \<longrightarrow>
            request_delays (snd (get_btc_balance_win T net a w)) = request_delays w
            \<and> request_delays (snd (get_eth_balance_win T net a w)) = request_delays w)"
  using get_btc_balance_win_429[OF assms(1), of b a] get_eth_balance_win_429[OF assms(2), of b a]
    get_btc_balance_win_not_throttled[of net T a w] get_eth_balance_win_not_throttled[of net T a w]
  by (simp add: new_events_def)

text \<open>
  C5 at the initial scanner: the Bitcoin delay goes from 0.5 to 0.75, and an answer with
  status 503 changes nothing.
\<close>

theorem throttle_scales_delay_unbounded_witness:
  "map_of (request_delays (init_win 15)) ''btc'' = Some (Fin (1 / 2))
   \<and> map_of (request_delays (init_win 15)) ''eth''
       = Some (Fin (5404319552844595 / 18014398509481984))
   \<and> fst (get_btc_balance_win False (Response 429 (Body JNull)) ''1A'' (init_win 15)) = Inr (Fin 0)
   \<and> new_events (init_win 15)
        (snd (get_btc_balance_win False (Response 429 (Body JNull)) ''1A'' (init_win 15)))
       = [Acquire, Sleep (Fin (1 / 2)), HttpGet (btc_url ''1A''), Sleep (Fin 2), Release]
   \<and> map_of (request_delays
        (snd (get_btc_balance_win False (Response 429 (Body JNull)) ''1A'' (init_win 15)))) ''btc''
       = Some (Fin (3 / 4))
   \<and> \<not> throttled (Response 503 (Body JNull))
   \<and> request_delays (snd (get_btc_balance_win False (Response 503 (Body JNull)) ''1A'' (init_win 15)))
       = request_delays (init_win 15)"
proof -
  have t: "\<not> throttled (Response 503 (Body JNull))" by (simp add: throttled_def)
  have m: "fmul (Fin (1 / 2)) (Fin (3 / 2)) = Fin (3 / 4)"
    using scaled_half[of 1] by simp
  show ?thesis
    using throttle_scales_delay_unbounded[OF init_win_btc[of 15] init_win_eth[of 15],
        where b = "Body JNull" and a = "''1A''" and net = "Response 503 (Body JNull)"
          and T = False]
      init_win_btc[of 15] init_win_eth[of 15] t m
    by (simp add: update_conv')
qed

text \<open>
  Claim C6 asks for an exact quotient for every raw value below \<open>2 ^ 53\<close>. The code divides
  in floating point: a raw value of one satoshi gives the float nearest to \<open>1 / 10 ^ 8\<close>,
  which is not \<open>1 / 10 ^ 8\<close>.
\<close>

theorem one_satoshi_is_rounded:
  "fst (get_btc_balance_v2 False
         (Response 200 (Body (JObj [(''1A'', JObj [(''final_balance'', JInt 1)])]))) ''1A'' init_v2)
     = Inr (Fin (3022314549036573 / 302231454903657293676544))
   \<and> (3022314549036573 / 302231454903657293676544 :: rat) \<noteq> 1 / 100000000"
  by (simp add: get_btc_balance_v2_def btc_try_v2_def btc_parse_v2_def bind_exn_def returning_def
      int_truediv_def fround_one_satoshi)

text \<open>
  Claim C6, as the code has it. For an integer raw value the balance functions return the
  true division of the raw value by \<open>10 ^ 8\<close> (Bitcoin) or \<open>10 ^ 18\<close> (Ethereum). The result is
  exact when the raw value is \<open>k\<close> times the divisor with \<open>\<bar>k\<bar> \<le> 2 ^ 53\<close>, in particular
  \<open>100000000 / 10 ^ 8 = 1.0\<close> and \<open>10 ^ 18 / 10 ^ 18 = 1.0\<close>; for every raw value from 1 to
  \<open>2 ^ 53\<close> it differs from the exact quotient by at most the fraction \<open>2 ^ -53\<close> of it.
\<close>

theorem normalisation_is_rounded_division:
  "btc_parse_v2 (JObj [(a, JObj [(''final_balance'', JInt raw)])]) a = int_truediv raw 100000000
   \<and> btc_parse_win (JObj [(a, JObj [(''final_balance'', JInt raw)])]) a
       = int_truediv raw 100000000
   \<and> eth_parse_v2 (JObj [(''status'', JStr ''1''), (''result'', JInt raw)])
       = returning (int_truediv raw (10 ^ 18))
   \<and> eth_parse_win (JObj [(''status'', JStr ''1''), (''result'', JInt raw)])
       = returning (int_truediv raw (10 ^ 18))
   \<and> (\<bar>k\<bar> \<le> 2 ^ 53 \<longrightarrow>
         int_truediv (k * 100000000) 100000000 = Inr (Fin (of_int k))
         \<and> int_truediv (k * 10 ^ 18) (10 ^ 18) = Inr (Fin (of_int k)))
   \<and> (0 < raw \<and> raw \<le> 2 ^ 53 \<longrightarrow>
         (\<exists>y. int_truediv raw 100000000 = Inr (Fin y)
             \<and> \<bar>y - of_int raw / 100000000\<bar> \<le> of_int raw / 100000000 / 2 ^ 53)
         \<and> (\<exists>y. int_truediv raw (10 ^ 18) = Inr (Fin y)
             \<and> \<bar>y - of_int raw / 10 ^ 18\<bar> \<le> of_int raw / 10 ^ 18 / 2 ^ 53))"
proof -
  have 1: "btc_parse_v2 (JObj [(a, JObj [(''final_balance'', JInt raw)])]) a
      = int_truediv raw 100000000"
    by (simp add: btc_parse_v2_def bind_exn_def)
  have 2: "btc_parse_win (JObj [(a, JObj [(''final_balance'', JInt raw)])]) a
      = int_truediv raw 100000000"
    by (simp add: btc_parse_win_def bind_exn_def)
  have 3: "eth_parse_v2 (JObj [(''status'', JStr ''1''), (''result'', JInt raw)])
       = returning (int_truediv raw (10 ^ 18))"
    by (simp add: eth_parse_v2_def bind_exn_def)
  have 4: "eth_parse_win (JObj [(''status'', JStr ''1''), (''result'', JInt raw)])
       = returning (int_truediv raw (10 ^ 18))"
    by (simp add: eth_parse_win_def bind_exn_def)
  have 5: "\<bar>k\<bar> \<le> 2 ^ 53 \<longrightarrow>
         int_truediv (k * 100000000) 100000000 = Inr (Fin (of_int k))
         \<and> int_truediv (k * 10 ^ 18) (10 ^ 18) = Inr (Fin (of_int k))"
    using int_truediv_multiple[of k 100000000] int_truediv_multiple[of k "10 ^ 18"] by simp
  have 6: "0 < raw \<and> raw \<le> 2 ^ 53 \<longrightarrow>
         (\<exists>y. int_truediv raw 100000000 = Inr (Fin y)
             \<and> \<bar>y - of_int raw / 100000000\<bar> \<le> of_int raw / 100000000 / 2 ^ 53)
         \<and> (\<exists>y. int_truediv raw (10 ^ 18) = Inr (Fin y)
             \<and> \<bar>y - of_int raw / 10 ^ 18\<bar> \<le> of_int raw / 10 ^ 18 / 2 ^ 53)"
    using int_truediv_error[of raw 100000000] int_truediv_error[of raw "10 ^ 18"] by simp
  from 1 2 3 4 5 6 show ?thesis by blast
qed

text \<open>
  C6 at the two values that the claim names, through the balance functions, and the error
  bound at one satoshi.
\<close>

theorem normalisation_is_rounded_division_witness:
  "\<bar>1\<bar> \<le> (2::int) ^ 53 \<and> (0::int) < 1 \<and> (1::int) \<le> 2 ^ 53
   \<and> int_truediv 100000000 100000000 = Inr (Fin 1)
   \<and> int_truediv 1000000000000000000 (10 ^ 18) = Inr (Fin 1)
   \<and> fst (get_btc_balance_v2 False
         (Response 200 (Body (JObj [(''1A'', JObj [(''final_balance'', JInt 100000000)])])))
         ''1A'' init_v2) = Inr (Fin 1)
   \<and> fst (get_eth_balance_v2 False
         (Response 200 (Body (JObj [(''status'', JStr ''1''),
                                    (''result'', JStr ''1000000000000000000'')])))
         ''0xB'' init_v2) = Inr (Fin 1)
   \<and> (\<exists>y. int_truediv 1 100000000 = Inr (Fin y)
          \<and> \<bar>y - 1 / 100000000\<bar> \<le> 1 / 100000000 / 2 ^ 53)"
proof -
  have h: "\<bar>1\<bar> \<le> (2::int) ^ 53" "(0::int) < 1" "(1::int) \<le> 2 ^ 53" by simp_all
  note n = normalisation_is_rounded_division[of "''1A''" 1 1]
  have a: "int_truediv 100000000 100000000 = Inr (Fin 1)" using n h by simp
  have b: "int_truediv 1000000000000000000 (10 ^ 18) = Inr (Fin 1)" using n h by simp
  have c: "\<exists>y. int_truediv 1 100000000 = Inr (Fin y)
          \<and> \<bar>y - 1 / 100000000\<bar> \<le> 1 / 100000000 / 2 ^ 53" using n h by simp
  have d: "fst (get_btc_balance_v2 False
         (Response 200 (Body (JObj [(''1A'', JObj [(''final_balance'', JInt 100000000)])])))
         ''1A'' init_v2) = Inr (Fin 1)"
    using a normalisation_is_rounded_division[of "''1A''" 100000000 1]
    by (simp add: get_btc_balance_v2_def btc_try_v2_def returning_def)
  have e: "fst (get_eth_balance_v2 False
         (Response 200 (Body (JObj [(''status'', JStr ''1''),
                                    (''result'', JStr ''1000000000000000000'')])))
         ''0xB'' init_v2) = Inr (Fin 1)"
    using b
    by (simp add: get_eth_balance_v2_def eth_try_v2_def eth_parse_v2_def bind_exn_def
        returning_def int_of_str_one_ether)
  from h a b c d e show ?thesis by blast
qed

text \<open>
  Claim C7. In a pass of the scan loop whose wallet was derived and whose lookups were not
  interrupted, \<open>found_count\<close> grows by one exactly when a successful lookup reported a
  balance above zero, and by nothing otherwise; and the wallet is appended to the file
  exactly in that case, provided the file can be written. (In \<^verbatim>\<open>cws_win.py\<close> the scanner
  holds a delay for both chains, as it does from its creation on.)
\<close>

theorem interesting_iff_positive_success:
  assumes "generate_wallet_addresses derive (env_key env) = Inr wallet0"
    and "generate_wallet_addresses derive (generate_secure_private_key T (env_key env) w)
          = Inr wallet1"
    and "\<not> interrupted (env_btc env)" and "\<not> interrupted (env_eth env)"
    and "map_of (request_delays w) ''btc'' = Some db"
    and "map_of (request_delays w) ''eth'' = Some de"
  shows "found_count (snd (scan_iteration_v2 T derive env s))
           = found_count s + (if interesting_v2 T (env_btc env) (env_eth env) wallet0 then 1 else 0)
       \<and> list_ex is_AppendFile (new_events s (snd (scan_iteration_v2 T derive env s)))
           = (interesting_v2 T (env_btc env) (env_eth env) wallet0 \<and> env_save env = None)
       \<and> found_count (snd (scan_iteration_win T derive env w))
           = found_count w + (if interesting_win T (env_btc env) (env_eth env) wallet1 then 1 else 0)
       \<and> list_ex is_AppendFile (new_events w (snd (scan_iteration_win T derive env w)))
           = (interesting_win T (env_btc env) (env_eth env) wallet1 \<and> env_save env = None)"
proof -
  obtain b e where c2: "fst (check_wallet_balances T (env_btc env) (env_eth env) wallet0 s)
      = Inr (wallet0\<lparr>btc_balance := b, eth_balance := e\<rparr>)"
    using check_wallet_balances_returns[OF assms(3,4), of T wallet0 s] by blast
  obtain b' e' where cw: "fst (check_wallet T (env_btc env) (env_eth env) wallet1 w)
      = Inr (wallet1\<lparr>btc_balance := b', eth_balance := e'\<rparr>)"
    using check_wallet_returns[OF assms(3,4), of T wallet1 w] by blast
  have h2: "has_balance (wallet0\<lparr>btc_balance := b, eth_balance := e\<rparr>)
      = interesting_v2 T (env_btc env) (env_eth env) wallet0"
    by (rule check_wallet_balances_has_balance[OF c2])
  have hw: "has_balance (wallet1\<lparr>btc_balance := b', eth_balance := e'\<rparr>)
      = interesting_win T (env_btc env) (env_eth env) wallet1"
    by (rule check_wallet_has_balance[OF cw assms(5,6)])
  have n2: "interesting_v2 T (env_btc env) (env_eth env) wallet0 \<Longrightarrow> \<not> T"
    by (simp add: interesting_v2_def)
  have nw: "interesting_win T (env_btc env) (env_eth env) wallet1 \<Longrightarrow> \<not> T"
    by (simp add: interesting_win_def)
  have f2: "found_count (snd (scan_iteration_v2 T derive env s))
           = found_count s + (if interesting_v2 T (env_btc env) (env_eth env) wallet0 then 1 else 0)"
    using scan_iteration_v2_counts[of T derive env s] assms(1) c2 h2
    by (simp add: counts_def counted_def)
  have fw: "found_count (snd (scan_iteration_win T derive env w))
           = found_count w + (if interesting_win T (env_btc env) (env_eth env) wallet1 then 1 else 0)"
    using scan_iteration_win_counts[of T derive env w] assms(2) cw hw
    by (simp add: counts_def counted_def)
  have a2: "list_ex is_AppendFile (new_events s (snd (scan_iteration_v2 T derive env s)))
           = (interesting_v2 T (env_btc env) (env_eth env) wallet0 \<and> env_save env = None)"
    using scan_iteration_v2_saved[OF assms(1) c2] h2 n2 by auto
  have aw: "list_ex is_AppendFile (new_events w (snd (scan_iteration_win T derive env w)))
           = (interesting_win T (env_btc env) (env_eth env) wallet1 \<and> env_save env = None)"
    using scan_iteration_win_saved[OF assms(2) cw] hw nw by auto
  from f2 a2 fw aw show ?thesis by blast
qed

text \<open>
  C7 at the example pass: the Bitcoin balance is positive, the wallet is counted and written
  by both scripts.
\<close>

theorem interesting_iff_positive_success_witness:
  "generate_wallet_addresses example_derive (env_key example_env) = Inr example_wallet
   \<and> generate_wallet_addresses example_derive
        (generate_secure_private_key False (env_key example_env) (init_win 15)) = Inr example_wallet
   \<and> \<not> interrupted (env_btc example_env) \<and> \<not> interrupted (env_eth example_env)
   \<and> map_of (request_delays (init_win 15)) ''btc'' = Some (Fin (1 / 2))
   \<and> map_of (request_delays (init_win 15)) ''eth''
       = Some (Fin (5404319552844595 / 18014398509481984))
   \<and> interesting_v2 False (env_btc example_env) (env_eth example_env) example_wallet
   \<and> env_save example_env = None
   \<and> found_count (snd (scan_iteration_v2 False example_derive example_env init_v2)) = 1
   \<and> list_ex is_AppendFile
        (new_events init_v2 (snd (scan_iteration_v2 False example_derive example_env init_v2)))
   \<and> found_count (snd (scan_iteration_win False example_derive example_env (init_win 15))) = 1
   \<and> list_ex is_AppendFile
        (new_events (init_win 15)
           (snd (scan_iteration_win False example_derive example_env (init_win 15))))"
proof -
  have s: "env_save example_env = None" by (simp add: example_env_def)
  have f: "found_count init_v2 = 0" "found_count (init_win 15) = 0"
    by (simp_all add: init_v2_def init_win_def)
  show ?thesis
    using interesting_iff_positive_success[OF example_generate
        example_generate_win[of "init_win 15"]
        example_not_interrupted init_win_btc[of 15] init_win_eth[of 15], where s = init_v2]
      example_generate example_generate_win[of "init_win 15"] example_not_interrupted
      init_win_btc[of 15] init_win_eth[of 15] example_interesting_v2 example_interesting_win s f
    by simp
qed

text \<open>
  Claim C8. In \<^verbatim>\<open>cws_win.py\<close>, when the delay of a chain is a positive finite float (every
  such float is at least \<open>2 ^ -1074\<close>), a lookup on that chain answered with status 429 leaves
  the chain with a strictly greater delay and leaves the delay of every other key, so of
  the other chain, as it was. The delays start at 0.5 and 0.3 and are only ever multiplied
  by 1.5, and a lookup sleeps for the delay of its chain before it sends its request, so a
  lookup that is answered at all started from a positive finite delay.
\<close>

theorem throttle_increases_own_delay_only:
  assumes "map_of (request_delays w) ''btc'' = Some (Fin db)" and "2 powi (- 1074) \<le> db"
    and "map_of (request_delays w) ''eth'' = Some (Fin de)" and "2 powi (- 1074) \<le> de"
  shows "(\<exists>d'. map_of (request_delays (snd (get_btc_balance_win False (Response 429 b) a w))) ''btc''
              = Some d' \<and> fless (Fin db) d')
       \<and> (\<forall>k. k \<noteq> ''btc'' \<longrightarrow>
            map_of (request_delays (snd (get_btc_balance_win False (Response 429 b) a w))) k
              = map_of (request_delays w) k)
       \<and> (\<exists>d'. map_of (request_delays (snd (get_eth_balance_win False (Response 429 b) a w))) ''eth''
              = Some d' \<and> fless (Fin de) d')
       \<and> (\<forall>k. k \<noteq> ''eth'' \<longrightarrow>
            map_of (request_delays (snd (get_eth_balance_win False (Response 429 b) a w))) k
              = map_of (request_delays w) k)"
  using get_btc_balance_win_429[OF assms(1), of b a] get_eth_balance_win_429[OF assms(3), of b a]
    fmul_scale_grows[OF assms(2)] fmul_scale_grows[OF assms(4)]
  by (simp add: update_conv')

text \<open>
  C8 at the initial scanner, whose delays are the floats 0.5 and 0.3.
\<close>

theorem throttle_increases_own_delay_only_witness:
  "map_of (request_delays (init_win 15)) ''btc'' = Some (Fin (1 / 2))
   \<and> 2 powi (- 1074) \<le> (1 / 2 :: rat)
   \<and> map_of (request_delays (init_win 15)) ''eth''
       = Some (Fin (5404319552844595 / 18014398509481984))
   \<and> 2 powi (- 1074) \<le> (5404319552844595 / 18014398509481984 :: rat)
   \<and> (\<exists>d'. map_of (request_delays
          (snd (get_btc_balance_win False (Response 429 (Body JNull)) ''1A'' (init_win 15)))) ''btc''
              = Some d' \<and> fless (Fin (1 / 2)) d')
   \<and> map_of (request_delays
          (snd (get_btc_balance_win False (Response 429 (Body JNull)) ''1A'' (init_win 15)))) ''eth''
       = map_of (request_delays (init_win 15)) ''eth''
   \<and> (\<exists>d'. map_of (request_delays
          (snd (get_eth_balance_win False (Response 429 (Body JNull)) ''1A'' (init_win 15)))) ''eth''
              = Some d' \<and> fless (Fin (5404319552844595 / 18014398509481984)) d')
   \<and> map_of (request_delays
          (snd (get_eth_balance_win False (Response 429 (Body JNull)) ''1A'' (init_win 15)))) ''btc''
       = map_of (request_delays (init_win 15)) ''btc''"
proof -
  have 1: "2 powi (- 1074) \<le> (1 / 2 :: rat)" by (simp add: power_int_minus)
  have 2: "2 powi (- 1074) \<le> (5404319552844595 / 18014398509481984 :: rat)"
    by (simp add: power_int_minus)
  note t = throttle_increases_own_delay_only[OF init_win_btc[of 15] 1 init_win_eth[of 15] 2,
        where b = "Body JNull" and a = "''1A''"]
  have a: "\<exists>d'. map_of (request_delays
          (snd (get_btc_balance_win False (Response 429 (Body JNull)) ''1A'' (init_win 15)))) ''btc''
              = Some d' \<and> fless (Fin (1 / 2)) d'"
    using t by (rule conjunct1)
  have b: "\<forall>k. k \<noteq> ''btc'' \<longrightarrow> map_of (request_delays
          (snd (get_btc_balance_win False (Response 429 (Body JNull)) ''1A'' (init_win 15)))) k
       = map_of (request_delays (init_win 15)) k"
    using t by (elim conjE)
  have c: "\<exists>d'. map_of (request_delays
          (snd (get_eth_balance_win False (Response 429 (Body JNull)) ''1A'' (init_win 15)))) ''eth''
              = Some d' \<and> fless (Fin (5404319552844595 / 18014398509481984)) d'"
    using t by (elim conjE)
  have d: "\<forall>k. k \<noteq> ''eth'' \<longrightarrow> map_of (request_delays
          (snd (get_eth_balance_win False (Response 429 (Body JNull)) ''1A'' (init_win 15)))) k
       = map_of (request_delays (init_win 15)) k"
    using t by (elim conjE)
  have b': "map_of (request_delays
          (snd (get_btc_balance_win False (Response 429 (Body JNull)) ''1A'' (init_win 15)))) ''eth''
       = map_of (request_delays (init_win 15)) ''eth''"
    using b by simp
  have d': "map_of (request_delays
          (snd (get_eth_balance_win False (Response 429 (Body JNull)) ''1A'' (init_win 15)))) ''btc''
       = map_of (request_delays (init_win 15)) ''btc''"
    using d by simp
  show ?thesis
    by (intro conjI init_win_btc init_win_eth 1 2 a b' c d')
qed

text \<open>
  Claim C9. When the Ethereum service answers with status 200 and the \<^verbatim>\<open>status\<close> field of
  the body is not the string \<^verbatim>\<open>'1'\<close> (or is missing), \<^verbatim>\<open>get_eth_balance\<close> returns \<open>0.0\<close>, and
  both its result and the scanner it leaves are those of an answer that reports a balance
  of zero.
\<close>

theorem eth_status_not_one_is_zero:
  assumes "py_getitem data ''status'' \<noteq> Inr (JStr ''1'')"
  shows "fst (get_eth_balance_v2 T (Response 200 (Body data)) a s) = Inr (Fin 0)
       \<and> get_eth_balance_v2 T (Response 200 (Body data)) a s
           = get_eth_balance_v2 T (Response 200 (Body zero_body)) a s
       \<and> fst (get_eth_balance_win T (Response 200 (Body data)) a w) = Inr (Fin 0)
       \<and> get_eth_balance_win T (Response 200 (Body data)) a w
           = get_eth_balance_win T (Response 200 (Body zero_body)) a w"
proof -
  have v2: "or_zero (except_Exception (eth_try_v2 (Response 200 (Body data)))) = Inr (Fin 0)"
    using eth_parse_v2_not_one[OF assms] by (simp add: eth_try_v2_def)
  have v2z: "or_zero (except_Exception (eth_try_v2 (Response 200 (Body zero_body)))) = Inr (Fin 0)"
    by (simp add: eth_try_v2_def eth_parse_v2_zero)
  define w1 where "w1 = emit [Acquire] w"
  have win: "or_zero (except_Exception (fst (eth_try_win (Response 200 (Body data)) a w1))) = Inr (Fin 0)"
    using eth_parse_win_not_one[OF assms]
    by (simp add: eth_try_win_def Let_def split: option.splits)
  have winz: "or_zero (except_Exception (fst (eth_try_win (Response 200 (Body zero_body)) a w1))) = Inr (Fin 0)"
    by (simp add: eth_try_win_def Let_def eth_parse_win_zero split: option.splits)
  have st: "snd (eth_try_win (Response 200 (Body data)) a w1)
      = snd (eth_try_win (Response 200 (Body zero_body)) a w1)"
    by (simp add: eth_try_win_def Let_def split: option.splits)
  show ?thesis
    using v2 v2z win winz st
    by (simp add: get_eth_balance_v2_def get_eth_balance_win_def split_beta w1_def)
qed

text \<open>
  C9 at the answer that the service gives when its rate limit is reached.
\<close>

theorem eth_status_not_one_is_zero_witness:
  "py_getitem (JObj [(''status'', JStr ''0''), (''message'', JStr ''NOTOK''),
                     (''result'', JStr ''Max rate limit reached'')]) ''status'' \<noteq> Inr (JStr ''1'')
   \<and> fst (get_eth_balance_v2 False (Response 200 (Body
          (JObj [(''status'', JStr ''0''), (''message'', JStr ''NOTOK''),
                 (''result'', JStr ''Max rate limit reached'')]))) ''0xB'' init_v2) = Inr (Fin 0)
   \<and> fst (get_eth_balance_win False (Response 200 (Body
          (JObj [(''status'', JStr ''0''), (''message'', JStr ''NOTOK''),
                 (''result'', JStr ''Max rate limit reached'')]))) ''0xB'' (init_win 15)) = Inr (Fin 0)"
proof -
  have 1: "py_getitem (JObj [(''status'', JStr ''0''), (''message'', JStr ''NOTOK''),
                     (''result'', JStr ''Max rate limit reached'')]) ''status'' \<noteq> Inr (JStr ''1'')"
    by simp
  show ?thesis
    using 1 eth_status_not_one_is_zero[OF 1, of False "''0xB''" init_v2 "init_win 15"]
    by blast
qed

text \<open>
  Claim C10. A pass of the scan loop that checked a wallet adds one to \<open>scan_count\<close> and
  adds to \<open>found_count\<close> one when a balance of the wallet is above zero and nothing
  otherwise; a pass that an exception ended before that leaves both counters as they were.
  So \<open>found_count \<le> scan_count\<close> is kept by every pass and by the whole of \<^verbatim>\<open>run_scan\<close>,
  in both scripts.
\<close>

theorem scan_counters_invariant:
  assumes "found_count s \<le> scan_count s" and "found_count w \<le> scan_count w"
  shows "counts (snd (scan_iteration_v2 T derive env s)) =
           (case generate_wallet_addresses derive (env_key env) of
              Inl e \<Rightarrow> counts s
            | Inr wallet0 \<Rightarrow>
                counted (fst (check_wallet_balances T (env_btc env) (env_eth env) wallet0 s))
                  (counts s))
       \<and> found_count (snd (scan_iteration_v2 T derive env s))
           \<le> scan_count (snd (scan_iteration_v2 T derive env s))
       \<and> found_count (snd (run_scan_v2 T derive envs s))
           \<le> scan_count (snd (run_scan_v2 T derive envs s))
       \<and> counts (snd (scan_iteration_win T derive env w)) =
           (case generate_wallet_addresses derive
                   (generate_secure_private_key T (env_key env) w) of
              Inl e \<Rightarrow> counts w
            | Inr wallet0 \<Rightarrow>
                counted (fst (check_wallet T (env_btc env) (env_eth env) wallet0 w)) (counts w))
       \<and> found_count (snd (scan_iteration_win T derive env w))
           \<le> scan_count (snd (scan_iteration_win T derive env w))
       \<and> found_count (snd (run_scan_win T derive target envs w))
           \<le> scan_count (snd (run_scan_win T derive target envs w))"
  using scan_iteration_v2_counts[of T derive env s] scan_iteration_v2_le[OF assms(1), of T derive env]
    run_scan_v2_le[OF assms(1), of T derive envs]
    scan_iteration_win_counts[of T derive env w] scan_iteration_win_le[OF assms(2), of T derive env]
    run_scan_win_le[OF assms(2), of T derive target envs]
  by blast

text \<open>
  C10 from the initial scanners, for the example pass and for a run of two such passes.
\<close>

theorem scan_counters_invariant_witness:
  "found_count init_v2 \<le> scan_count init_v2
   \<and> found_count (init_win 15) \<le> scan_count (init_win 15)
   \<and> found_count (snd (scan_iteration_v2 False example_derive example_env init_v2))
       \<le> scan_count (snd (scan_iteration_v2 False example_derive example_env init_v2))
   \<and> found_count (snd (run_scan_v2 False example_derive [example_env, example_env] init_v2))
       \<le> scan_count (snd (run_scan_v2 False example_derive [example_env, example_env] init_v2))
   \<and> found_count (snd (scan_iteration_win False example_derive example_env (init_win 15)))
       \<le> scan_count (snd (scan_iteration_win False example_derive example_env (init_win 15)))
   \<and> found_count (snd (run_scan_win False example_derive None [example_env, example_env]
          (init_win 15)))
       \<le> scan_count (snd (run_scan_win False example_derive None [example_env, example_env]
          (init_win 15)))"
proof -
  have 1: "found_count init_v2 \<le> scan_count init_v2" by (simp add: init_v2_def)
  have 2: "found_count (init_win 15) \<le> scan_count (init_win 15)" by (simp add: init_win_def)
  show ?thesis
    using 1 2 scan_counters_invariant[OF 1 2, of False example_derive example_env
        "[example_env, example_env]" None]
    by blast
qed

end
